theory Spec2Isabelle
  imports Main "HOL-Library.AList"
begin

section \<open>Values, promises and the shared Action contract\<close>

text \<open>
  The engine is TypeScript on Node. Values that flow through \<open>eval\<close>,
  \<open>runInNewContext\<close>, \<open>JSON.parse\<close> and the scenario cache are JavaScript values;
  only their truthiness matters to the control flow of the actions.
\<close>

datatype jsval =
    JUndefined
  | JNull
  | JBool bool
  | JNum int
  | JStr string
  | JArr "jsval list"
  | JObj "(string \<times> jsval) list"
  | JBuffer string
  | JReadStream string

text \<open>\<open>!!v\<close> and \<open>if (v)\<close>: the falsy values are undefined, null, false, 0 and ''.\<close>

fun truthy :: "jsval \<Rightarrow> bool" where
  "truthy JUndefined = False"
| "truthy JNull = False"
| "truthy (JBool b) = b"
| "truthy (JNum n) = (n \<noteq> 0)"
| "truthy (JStr s) = (s \<noteq> [])"
| "truthy (JArr _) = True"
| "truthy (JObj _) = True"
| "truthy (JBuffer _) = True"
| "truthy (JReadStream _) = True"

text \<open>
  A promise is settled at most once: \<open>resolve\<close> and \<open>reject\<close> act on a pending
  promise only, every later call is ignored.
\<close>

datatype promise_state = Pending | Resolved | Rejected

fun resolve :: "promise_state \<Rightarrow> promise_state" where
  "resolve Pending = Resolved"
| "resolve p = p"

fun reject :: "promise_state \<Rightarrow> promise_state" where
  "reject Pending = Rejected"
| "reject p = p"

text \<open>An exception thrown by evaluated JavaScript, carrying its message.\<close>

datatype exn = Thrown string

text \<open>A plain object with string values (headers, query parameters, form, variables):
  its entries in insertion order, keys unique.\<close>

type_synonym obj = "(string \<times> string) list"

text \<open>The scenario's variable cache, a \<open>Map<string, unknown>\<close>.\<close>

type_synonym cache = "string \<rightharpoonup> jsval"

record DiagramConfiguration =
  hiddenFields :: "string list option"
  hidePlaintext :: "bool option"

text \<open>
  The loaded definition a REST action is built from (its key \<open>method\<close> is the field
  \<open>httpMethod\<close> here, as in the action and in the request options). It is passed
  as \<open>any\<close>: besides the keys of \<open>RestActionDefinition\<close> the constructor and
  \<open>fromTemplate\<close> read \<open>invokeEvenOnFail\<close>, \<open>allowFailure\<close> and \<open>restHead\<close>. \<open>None\<close> is
  an absent key.
\<close>

record RestActionDefinition =
  name :: string
  description :: "string option"
  httpMethod :: "string option"
  queryParameters :: "obj option"
  headers :: "obj option"
  restHead :: "obj option"
  data :: "jsval option"
  dataBinary :: "string option"
  form :: "obj option"
  variableAsPayload :: "string option"
  responseValidation :: "string list option"
  variables :: "obj option"
  expectedStatusCodes :: "int list option"
  invokeEvenOnFail :: "bool option"
  allowFailure :: "bool option"
  clientCertificate :: "string option"
  clientKey :: "string option"
  expectBinaryResponse :: "bool option"
  diagramConfiguration :: "DiagramConfiguration option"

datatype ActionType = REST | MQTT | MQTT_PUBLISH | WEBSOCKET

record Action =
  name :: string
  description :: string
  type :: ActionType
  invokeEvenOnFail :: bool
  allowFailure :: bool

section \<open>The scenario runner (index.ts)\<close>

record TestResult =
  action :: string
  duration :: string
  successful :: bool

record 'a Scenario =
  scenarioName :: string
  scenarioDescription :: string
  actions :: "'a Action_scheme list"

text \<open>
  What awaiting \<open>actionCallback.promise\<close> observes: the promise is fulfilled, it is
  rejected, or it never settles. In the last case the \<open>await\<close> never returns and
  the loop stays at that action.
\<close>

datatype settlement = Fulfilled | Failed | Never

text \<open>
  \<open>action.invoke(scenario)\<close> seen from the runner: from the state of the world
  (the scenario cache and the services) it yields the settlement, the elapsed time
  as \<open>toFixed(2)\<close> prints it, and the world after the action.
\<close>

type_synonym ('a, 'w) invoker = "'a Action_scheme \<Rightarrow> 'w \<Rightarrow> settlement \<times> string \<times> 'w"

text \<open>
  The state of \<open>invokeActionsSynchronously\<close>: the global \<open>RESULTS\<close>, the local flag
  \<open>successful\<close> (here \<open>run_successful\<close>), \<open>ASYNC_ACTIONS\<close>, the callbacks cancelled
  at the end, and the world. \<open>invoked\<close> lists the actions whose \<open>invoke\<close> has been
  called, in order; \<open>blocked\<close> says that an awaited promise never settled.
\<close>

record ('a, 'w) runner =
  RESULTS :: "string \<rightharpoonup> TestResult list"
  run_successful :: bool
  ASYNC_ACTIONS :: "'a Action_scheme list"
  cancelled :: "'a Action_scheme list"
  invoked :: "'a Action_scheme list"
  world :: 'w
  blocked :: bool

text \<open>\<open>const scenarioResults = RESULTS.get(scenarioName);
  if (scenarioResults) scenarioResults.push(new TestResult(...))\<close>\<close>

definition push_result ::
  "string \<Rightarrow> TestResult \<Rightarrow> (string \<rightharpoonup> TestResult list) \<Rightarrow> (string \<rightharpoonup> TestResult list)" where
  "push_result n r R = (case R n of None \<Rightarrow> R | Some rs \<Rightarrow> R(n \<mapsto> rs @ [r]))"

text \<open>The \<open>catch\<close> handler of the awaited promise.\<close>

definition handleError ::
  "string \<Rightarrow> 'a Action_scheme \<Rightarrow> string \<Rightarrow> ('a, 'w) runner \<Rightarrow> ('a, 'w) runner" where
  "handleError n a d st =
     st\<lparr>RESULTS := push_result n \<lparr>action = description a, duration = d, successful = False\<rparr> (RESULTS st),
        run_successful := False\<rparr>"

text \<open>One iteration of the \<open>for\<close> loop, up to and including the \<open>await\<close>.\<close>

definition invoke_one ::
  "('a, 'w) invoker \<Rightarrow> string \<Rightarrow> ('a, 'w) runner \<Rightarrow> 'a Action_scheme \<Rightarrow> ('a, 'w) runner" where
  "invoke_one ivk n st a =
     (case ivk a (world st) of (out, d, w') \<Rightarrow>
        let st1 = st\<lparr>invoked := invoked st @ [a], world := w',
                     ASYNC_ACTIONS := (if type a = WEBSOCKET then ASYNC_ACTIONS st @ [a]
                                       else ASYNC_ACTIONS st)\<rparr>
        in (case out of
              Fulfilled \<Rightarrow>
                st1\<lparr>RESULTS := push_result n
                       \<lparr>action = description a, duration = d, successful = True\<rparr> (RESULTS st1)\<rparr>
            | Failed \<Rightarrow> handleError n a d st1
            | Never \<Rightarrow> st1\<lparr>blocked := True\<rparr>))"

text \<open>\<open>for (const action of scenario.actions) { ...; if (!successful) break; }\<close>\<close>

fun for_actions ::
  "('a, 'w) invoker \<Rightarrow> string \<Rightarrow> ('a, 'w) runner \<Rightarrow> 'a Action_scheme list \<Rightarrow> ('a, 'w) runner" where
  "for_actions ivk n st [] = st"
| "for_actions ivk n st (a # as) =
     (let st' = invoke_one ivk n st a
      in if blocked st' then st'
         else if \<not> run_successful st' then st'
         else for_actions ivk n st' as)"

definition init_run ::
  "'a Scenario \<Rightarrow> (string \<rightharpoonup> TestResult list) \<Rightarrow> 'w \<Rightarrow> ('a, 'w) runner" where
  "init_run sc R w =
     \<lparr>RESULTS = R(scenarioName sc \<mapsto> []), run_successful = True, ASYNC_ACTIONS = [],
      cancelled = [], invoked = [], world = w, blocked = False\<rparr>"

definition invokeActionsSynchronously ::
  "('a, 'w) invoker \<Rightarrow> 'a Scenario \<Rightarrow> (string \<rightharpoonup> TestResult list) \<Rightarrow> 'w \<Rightarrow> ('a, 'w) runner" where
  "invokeActionsSynchronously ivk sc R w =
     (let st = for_actions ivk (scenarioName sc) (init_run sc R w) (actions sc)
      in if blocked st then st else st\<lparr>cancelled := ASYNC_ACTIONS st\<rparr>)"

text \<open>\<open>res.some(t => t.successful === false)\<close>, which decides the exit status.\<close>

definition has_failed_result :: "TestResult list \<Rightarrow> bool" where
  "has_failed_result rs = list_ex (\<lambda>t. successful t = False) rs"

section \<open>External collaborators\<close>

text \<open>
  The helpers the actions call but whose code is elsewhere (the HTTP client with its
  retries, the file system, variable injection, the JavaScript evaluators, JSON and
  protobuf codecs, the MQTT and WebSocket clients) are taken as parameters. Each may
  throw; \<open>request\<close> delivers a response or, when the transport has failed for good,
  an error. \<open>connect url\<close> is \<open>connect(url, options)\<close> of the \<open>mqtt\<close> package and
  \<open>WebSocket_new address\<close> is \<open>new WebSocket(address)\<close> of the \<open>ws\<close> package: each
  returns a client whose events come later, or throws at once (an address the
  package cannot parse).
  \<open>runInNewContext e msg\<close> evaluates \<open>e\<close> with \<open>msg\<close> bound; \<open>js_eval e scope\<close> is
  \<open>eval(e)\<close> with the local variables \<open>scope\<close> visible.
\<close>

text \<open>What \<open>requestretry\<close> is called with, and the response it delivers. The body of
  a request is absent, a text, a buffer or a file stream; the body of a response
  is a string or, for a binary response, a \<open>Buffer\<close>.\<close>

datatype request_body = NoBody | TextBody string | BufferBody string | StreamBody string

record requestOptions =
  httpMethod :: "string option"
  url :: string
  headers :: "obj option"
  body :: request_body
  encoding_null :: bool
  form :: "obj option"
  maxAttempts :: nat
  retryDelay :: nat
  fullResponse :: bool
  cert_key :: "(string \<times> string) option"

datatype response_body = StringBody string | BinaryBody string

record Response =
  statusCode :: int
  statusMessage :: string
  headers :: obj
  body :: "response_body option"
  request_method :: string
  request_path :: string

record env =
  request :: "requestOptions \<Rightarrow> string + Response"
  stringify :: "obj \<Rightarrow> string"
  readFileSync :: "string \<Rightarrow> exn + string"
  injectEvalAndVarsToData :: "jsval \<Rightarrow> cache \<Rightarrow> exn + jsval"
  injectEvalAndVarsToString :: "string \<Rightarrow> cache \<Rightarrow> exn + string"
  injectEvalAndVarsToMap :: "obj option \<Rightarrow> cache \<Rightarrow> exn + obj"
  injectEvaluationToMap :: "jsval \<Rightarrow> exn + jsval"
  runInNewContext :: "string \<Rightarrow> jsval \<Rightarrow> exn + jsval"
  js_eval :: "string \<Rightarrow> (string \<times> jsval) list \<Rightarrow> exn + jsval"
  JSON_parse :: "string \<Rightarrow> exn + jsval"
  JSON_stringify :: "jsval \<Rightarrow> string"
  decodeProto :: "string \<Rightarrow> string \<Rightarrow> string \<Rightarrow> exn + jsval"
  encodeProto :: "string \<Rightarrow> jsval \<Rightarrow> string \<Rightarrow> exn + string"
  Buffer_from :: "string \<Rightarrow> string option \<Rightarrow> string"
  connect :: "string \<Rightarrow> exn + unit"
  WebSocket_new :: "string \<Rightarrow> exn + unit"

text \<open>What the actions hand to the diagram recorder and to the logger.\<close>

datatype diagram_entry =
    MqttMessage string jsval
  | MissingMQTTMessage string int int string
  | MqttPublishMessage string string
  | WsMessage string jsval
  | Request string string
  | SuccessfulResponseArrow string int
  | SuccessfulResponseBody jsval
  | ValidationFailureResponseBody string jsval
  | SuccessfulResponse string int
  | FailedResponse string int

datatype log_entry = LogDebug string | LogError string

text \<open>
  What one call of \<open>invoke\<close> has set in motion: the Action object it runs on (\<open>self\<close>,
  the \<open>this\<close> of the handlers), the promise it returned, what it has recorded and
  logged, and the exceptions thrown out of event handlers, which nothing catches.
\<close>

record 'a invocation =
  self :: 'a
  promise :: promise_state
  diagram :: "diagram_entry list"
  log :: "log_entry list"
  uncaught :: "exn list"

section \<open>MQTT subscribe (MqttAction.ts)\<close>

record MqttAction = Action +
  allowInsecure :: bool
  url :: string
  username :: "string option"
  password :: "string option"
  topic :: string
  durationInSec :: int
  expectedNumberOfMessages :: int
  numberOfReceivedMessages :: int
  messageType :: "string option"
  messageFilter :: "string list option"
  messageEncoding :: "string option"
  protoFile :: string
  protoClass :: string
  diagramConfiguration :: DiagramConfiguration

text \<open>An inbound message is a \<open>Buffer\<close> or a string.\<close>

datatype mqtt_payload = Buffer string | Text string

fun payload_toString :: "mqtt_payload \<Rightarrow> string" where
  "payload_toString (Buffer b) = b"
| "payload_toString (Text t) = t"

text \<open>
  The invocation of an MQTT subscribe action: \<open>client_topic\<close> is the resolved topic
  once the client exists (the handlers are registered), \<open>subscribed\<close> the topics
  passed to \<open>client.subscribe\<close>, \<open>timers\<close> the delays of the armed \<open>setTimeout\<close>
  calls in milliseconds, \<open>end_called\<close> whether a timer has called \<open>client.end()\<close>.
\<close>

record mqtt_invocation = "MqttAction invocation" +
  client_topic :: "string option"
  subscribed :: "string list"
  timers :: "int list"
  end_called :: bool

datatype mqtt_event =
    Connect
  | SubscribeCallback "string option"
  | TimerFired
  | Message mqtt_payload
  | Reconnect
  | Close
  | ErrorEvent string

text \<open>\<open>registeredMessageFilters.some(filter => !!runInNewContext(expand(filter), {msg}))\<close>:
  the filters are tried in order up to the first truthy one; an exception ends the
  evaluation.\<close>

fun some_filter :: "env \<Rightarrow> cache \<Rightarrow> jsval \<Rightarrow> string list \<Rightarrow> exn + bool" where
  "some_filter E c msg [] = Inr False"
| "some_filter E c msg (f # fs) =
     (case injectEvalAndVarsToString E f c of
        Inl e \<Rightarrow> Inl e
      | Inr expandedFilter \<Rightarrow>
          (case runInNewContext E expandedFilter msg of
             Inl e \<Rightarrow> Inl e
           | Inr v \<Rightarrow> if truthy v then Inr True else some_filter E c msg fs))"

text \<open>\<open>if (registeredMessageFilters) return registeredMessageFilters.some(...);
  return true;\<close>  An array, also an empty one, is truthy.\<close>

definition isMessageRelevant :: "env \<Rightarrow> string list option \<Rightarrow> cache \<Rightarrow> jsval \<Rightarrow> exn + bool" where
  "isMessageRelevant E registeredMessageFilters c msg =
     (case registeredMessageFilters of
        None \<Rightarrow> Inr True
      | Some fs \<Rightarrow> some_filter E c msg fs)"

definition expandParameters ::
  "env \<Rightarrow> MqttAction \<Rightarrow> cache \<Rightarrow> exn + (string \<times> string option \<times> string option)" where
  "expandParameters E a c =
     (case injectEvalAndVarsToString E (topic a) c of
        Inl e \<Rightarrow> Inl e
      | Inr t \<Rightarrow>
          (case (case username a of None \<Rightarrow> Inr None
                 | Some u \<Rightarrow> map_sum id Some (injectEvalAndVarsToString E u c)) of
             Inl e \<Rightarrow> Inl e
           | Inr u \<Rightarrow>
               (case (case password a of None \<Rightarrow> Inr None
                      | Some p \<Rightarrow> map_sum id Some (injectEvalAndVarsToString E p c)) of
                  Inl e \<Rightarrow> Inl e
                | Inr p \<Rightarrow> Inr (t, u, p))))"

text \<open>\<open>invoke\<close>: the promise executor runs \<open>invokeAsync\<close> up to the registration of
  the handlers; an exception thrown by the expansion of the parameters or by
  \<open>connect(this.url, ...)\<close> rejects the promise, and then there is no client.\<close>

definition MqttAction_invoke :: "env \<Rightarrow> MqttAction \<Rightarrow> cache \<Rightarrow> mqtt_invocation" where
  "MqttAction_invoke E a c =
     (case expandParameters E a c of
        Inl e \<Rightarrow>
          \<lparr>self = a, promise = Rejected, diagram = [], log = [], uncaught = [],
           client_topic = None, subscribed = [], timers = [], end_called = False\<rparr>
      | Inr (t, u, p) \<Rightarrow>
          (case connect E (url a) of
             Inl e \<Rightarrow>
               \<lparr>self = a, promise = Rejected, diagram = [], log = [], uncaught = [],
                client_topic = None, subscribed = [], timers = [], end_called = False\<rparr>
           | Inr client \<Rightarrow>
               \<lparr>self = a, promise = Pending, diagram = [], log = [], uncaught = [],
                client_topic = Some t, subscribed = [], timers = [], end_called = False\<rparr>))"

definition on_connect :: "string \<Rightarrow> mqtt_invocation \<Rightarrow> mqtt_invocation" where
  "on_connect t s =
     s\<lparr>log := log s @ [LogDebug ''MQTT connection successfully opened''],
       subscribed := subscribed s @ [t],
       timers := timers s @ [durationInSec (self s) * 1000]\<rparr>"

definition on_subscribe :: "string option \<Rightarrow> mqtt_invocation \<Rightarrow> mqtt_invocation" where
  "on_subscribe error s =
     (case error of
        Some msg \<Rightarrow>
          s\<lparr>log := log s @ [LogError ''Error while subscribing''],
            diagram := diagram s @
              [MissingMQTTMessage (topic (self s)) (expectedNumberOfMessages (self s))
                 (numberOfReceivedMessages (self s)) msg],
            promise := reject (promise s)\<rparr>
      | None \<Rightarrow> s\<lparr>log := log s @ [LogDebug ''Successfully subscribed'']\<rparr>)"

text \<open>\<open>setTimeout(() => client.end(), this.durationInSec * 1000)\<close> fires.\<close>

definition on_timer :: "mqtt_invocation \<Rightarrow> mqtt_invocation" where
  "on_timer s = (case timers s of [] \<Rightarrow> s | d # ds \<Rightarrow> s\<lparr>timers := ds, end_called := True\<rparr>)"

definition decode_message :: "env \<Rightarrow> MqttAction \<Rightarrow> mqtt_payload \<Rightarrow> exn + jsval" where
  "decode_message E a message =
     (let mt = (case messageType a of None \<Rightarrow> ''json'' | Some t \<Rightarrow> if t = [] then ''json'' else t)
      in if mt = ''json'' then JSON_parse E (payload_toString message)
         else if mt = ''proto'' then
           (case message of
              Buffer b \<Rightarrow> decodeProto E (protoFile a) (protoClass a) b
            | Text t \<Rightarrow> decodeProto E (protoFile a) (protoClass a) (Buffer_from E t (messageEncoding a)))
         else Inr (JObj []))"

definition on_message :: "env \<Rightarrow> cache \<Rightarrow> string \<Rightarrow> mqtt_payload \<Rightarrow> mqtt_invocation \<Rightarrow> mqtt_invocation" where
  "on_message E c t message s =
     (case decode_message E (self s) message of
        Inl e \<Rightarrow> s\<lparr>uncaught := uncaught s @ [e]\<rparr>
      | Inr msgObj \<Rightarrow>
          (case isMessageRelevant E (messageFilter (self s)) c msgObj of
             Inl e \<Rightarrow> s\<lparr>uncaught := uncaught s @ [e]\<rparr>
           | Inr relevant \<Rightarrow>
               if relevant then
                 s\<lparr>self := (self s)\<lparr>numberOfReceivedMessages := numberOfReceivedMessages (self s) + 1\<rparr>,
                   log := log s @ [LogDebug ''Relevant MQTT update received''],
                   diagram := diagram s @ [MqttMessage t msgObj]\<rparr>
               else s\<lparr>log := log s @ [LogDebug ''Irrelevant MQTT update received'']\<rparr>))"

definition on_close :: "mqtt_invocation \<Rightarrow> mqtt_invocation" where
  "on_close s =
     (let s1 = s\<lparr>log := log s @ [LogDebug ''MQTT connection closed!'']\<rparr>
      in if numberOfReceivedMessages (self s) \<noteq> expectedNumberOfMessages (self s) then
           s1\<lparr>diagram := diagram s1 @
                 [MissingMQTTMessage (topic (self s)) (expectedNumberOfMessages (self s))
                    (numberOfReceivedMessages (self s)) ''Unexpected number of MQTT messages received''],
               log := log s1 @ [LogError ''Unexpected number of MQTT messages received''],
               promise := reject (promise s)\<rparr>
         else s1\<lparr>promise := resolve (promise s)\<rparr>)"

definition on_error :: "string \<Rightarrow> mqtt_invocation \<Rightarrow> mqtt_invocation" where
  "on_error msg s =
     s\<lparr>diagram := diagram s @
          [MissingMQTTMessage (topic (self s)) (expectedNumberOfMessages (self s))
             (numberOfReceivedMessages (self s)) msg],
       log := log s @ [LogError ''Error during connection''],
       promise := reject (promise s)\<rparr>"

text \<open>The client delivers one event to its handler. Without a client (the executor
  threw before \<open>connect\<close> had returned one) there are no handlers.\<close>

definition mqtt_step :: "env \<Rightarrow> cache \<Rightarrow> mqtt_invocation \<Rightarrow> mqtt_event \<Rightarrow> mqtt_invocation" where
  "mqtt_step E c s ev =
     (case client_topic s of
        None \<Rightarrow> s
      | Some t \<Rightarrow>
          (case ev of
             Connect \<Rightarrow> on_connect t s
           | SubscribeCallback error \<Rightarrow> on_subscribe error s
           | TimerFired \<Rightarrow> on_timer s
           | Message m \<Rightarrow> on_message E c t m s
           | Reconnect \<Rightarrow> s\<lparr>log := log s @ [LogDebug ''MQTT client reconnected'']\<rparr>
           | Close \<Rightarrow> on_close s
           | ErrorEvent msg \<Rightarrow> on_error msg s))"

definition mqtt_run :: "env \<Rightarrow> cache \<Rightarrow> mqtt_invocation \<Rightarrow> mqtt_event list \<Rightarrow> mqtt_invocation" where
  "mqtt_run E c s evs = foldl (mqtt_step E c) s evs"

text \<open>
  The listen window: while handling \<open>connect\<close> the action arms a timer of
  \<open>durationInSec * 1000\<close> milliseconds whose only effect is \<open>client.end()\<close>, and the
  connection closes in answer to that call. \<open>closes_after_timer\<close> says of a run that
  each of its \<open>close\<close> events comes when a timer has called \<open>client.end()\<close>, that
  is, that the connection is not lost while the window is open.
  \<open>reports_error\<close> singles out the events that carry an error: a connection error
  and a subscribe callback with an error.
\<close>

fun closes_after_timer :: "env \<Rightarrow> cache \<Rightarrow> mqtt_invocation \<Rightarrow> mqtt_event list \<Rightarrow> bool" where
  "closes_after_timer E c s [] = True"
| "closes_after_timer E c s (ev # evs) =
     ((ev = Close \<longrightarrow> end_called s) \<and> closes_after_timer E c (mqtt_step E c s ev) evs)"

fun reports_error :: "mqtt_event \<Rightarrow> bool" where
  "reports_error (ErrorEvent msg) = True"
| "reports_error (SubscribeCallback (Some msg)) = True"
| "reports_error ev = False"

text \<open>The relevance rule as the specification words it: a message is relevant when
  some configured filter is truthy, or when no filters are configured. A filter is
  truthy when its expansion evaluates, with \<open>msg\<close> bound, to a truthy value.\<close>

definition filter_truthy :: "env \<Rightarrow> cache \<Rightarrow> jsval \<Rightarrow> string \<Rightarrow> bool" where
  "filter_truthy E c msg f =
     (case injectEvalAndVarsToString E f c of
        Inl e \<Rightarrow> False
      | Inr x \<Rightarrow> (case runInNewContext E x msg of Inl e \<Rightarrow> False | Inr v \<Rightarrow> truthy v))"

definition filter_falsy :: "env \<Rightarrow> cache \<Rightarrow> jsval \<Rightarrow> string \<Rightarrow> bool" where
  "filter_falsy E c msg f =
     (case injectEvalAndVarsToString E f c of
        Inl e \<Rightarrow> False
      | Inr x \<Rightarrow> (case runInNewContext E x msg of Inl e \<Rightarrow> False | Inr v \<Rightarrow> \<not> truthy v))"

definition configured_filters :: "string list option \<Rightarrow> string list" where
  "configured_filters mf = (case mf of None \<Rightarrow> [] | Some fs \<Rightarrow> fs)"

definition spec_relevant :: "env \<Rightarrow> string list option \<Rightarrow> cache \<Rightarrow> jsval \<Rightarrow> bool" where
  "spec_relevant E mf c msg =
     (configured_filters mf = [] \<or> list_ex (filter_truthy E c msg) (configured_filters mf))"

text \<open>A small evaluator for concrete runs: the expressions \<open>true\<close>, \<open>false\<close>,
  \<open>res.code === 200\<close> (true) and the name of a bound variable evaluate, every other
  expression throws; injection leaves text as it is; the JSON texts \<open>{}\<close> and \<open>1\<close>
  parse; every request is answered with status 200 and the body \<open>{}\<close>; the MQTT
  client accepts the addresses that begin with \<open>mqtt://\<close> and the WebSocket client
  those that begin with \<open>ws://\<close>, and they throw at any other.\<close>

definition demo_env :: env where
  "demo_env =
     \<lparr>request = (\<lambda>opts. Inr \<lparr>statusCode = 200, statusMessage = ''OK'',
                                headers = [(''content-type'', ''application/json'')],
                                body = Some (StringBody ''{}''), request_method = ''GET'',
                                request_path = ''/''\<rparr>),
      stringify = (\<lambda>q. concat (map (\<lambda>(k, v). k @ ''='' @ v @ ''&'') q)),
      readFileSync = (\<lambda>path. Inl (Thrown ''ENOENT'')),
      injectEvalAndVarsToData = (\<lambda>d c. Inr (JObj [])),
      injectEvalAndVarsToString = (\<lambda>s c. Inr s),
      injectEvalAndVarsToMap = (\<lambda>m c. Inr (case m of None \<Rightarrow> [] | Some x \<Rightarrow> x)),
      injectEvaluationToMap = (\<lambda>v. Inr v),
      runInNewContext = (\<lambda>e msg. if e = ''true'' then Inr (JBool True)
                                  else if e = ''false'' then Inr (JBool False)
                                  else if e = ''msg'' then Inr msg
                                  else Inl (Thrown ''ReferenceError'')),
      js_eval = (\<lambda>e scope. if e = ''true'' \<or> e = ''res.code === 200'' then Inr (JBool True)
                            else if e = ''false'' then Inr (JBool False)
                            else (case map_of scope e of Some v \<Rightarrow> Inr v
                                  | None \<Rightarrow> Inl (Thrown ''ReferenceError''))),
      JSON_parse = (\<lambda>t. if t = ''{}'' then Inr (JObj [])
                         else if t = ''1'' then Inr (JNum 1)
                         else Inl (Thrown ''SyntaxError'')),
      JSON_stringify = (\<lambda>v. ''json''),
      decodeProto = (\<lambda>f k b. Inr (JObj [])),
      encodeProto = (\<lambda>f v k. Inr ''bytes''),
      Buffer_from = (\<lambda>t enc. t),
      connect = (\<lambda>u. if take 7 u = ''mqtt://'' then Inr ()
                     else Inl (Thrown ''Missing protocol'')),
      WebSocket_new = (\<lambda>u. if take 5 u = ''ws://'' then Inr ()
                           else Inl (Thrown ''Invalid URL''))\<rparr>"

definition demo_mqtt :: MqttAction where
  "demo_mqtt =
     \<lparr>name = ''listen'', description = ''listen'', type = MQTT, invokeEvenOnFail = False,
      allowFailure = False, allowInsecure = False, url = ''mqtt://broker'',
      username = None, password = None, topic = ''t'', durationInSec = 2,
      expectedNumberOfMessages = 1, numberOfReceivedMessages = 0, messageType = None,
      messageFilter = Some [''msg''], messageEncoding = None, protoFile = [], protoClass = [],
      diagramConfiguration = \<lparr>hiddenFields = None, hidePlaintext = None\<rparr>\<rparr>"

text \<open>A scenario of three actions whose second one fails, and its invoker.\<close>

definition demo_action :: "string \<Rightarrow> ActionType \<Rightarrow> Action" where
  "demo_action n t =
     \<lparr>name = n, description = n, type = t, invokeEvenOnFail = False, allowFailure = False\<rparr>"

definition demo_scenario :: "unit Scenario" where
  "demo_scenario =
     \<lparr>scenarioName = ''s1'', scenarioDescription = ''demo'',
      actions = [demo_action ''login'' WEBSOCKET, demo_action ''order'' REST,
                 demo_action ''logout'' REST]\<rparr>"

definition demo_invoker :: "(unit, nat) invoker" where
  "demo_invoker a w = (if name a = ''order'' then Failed else Fulfilled, ''1.00'', Suc w)"

text \<open>A run in which the connection reports an error after one relevant message.\<close>

definition demo_error_trace :: "mqtt_event list" where
  "demo_error_trace =
     [Connect, SubscribeCallback None, Message (Text ''{}''), ErrorEvent ''socket hang up'',
      TimerFired, Close]"

text \<open>A run with one relevant message, in which the timer fires and the connection
  closes, and its part up to the message.\<close>

definition demo_listen_trace :: "mqtt_event list" where
  "demo_listen_trace =
     [Connect, SubscribeCallback None, Message (Text ''{}''), TimerFired, Close]"

definition demo_early_trace :: "mqtt_event list" where
  "demo_early_trace = [Connect, SubscribeCallback None, Message (Text ''{}'')]"

section \<open>MQTT publish (MqttPublishAction.ts)\<close>

text \<open>The class implements the Action contract; of its fields it declares \<open>name\<close>
  and \<open>type\<close> and the ones below.\<close>

record MqttPublishAction = Action +
  url :: string
  username :: "string option"
  password :: "string option"
  topic :: string
  data :: jsval
  protoFile :: "string option"
  protoClass :: string

text \<open>\<open>has_client\<close> says whether \<open>Mqtt.connect\<close> has returned a client (the handlers
  are registered on it), \<open>publishing\<close> counts the \<open>client.publish\<close> calls whose
  callback is still to come, \<open>published\<close> lists topic and payload of every call,
  \<open>client_ended\<close> says whether \<open>client.end()\<close> has run.\<close>

record publish_invocation = "MqttPublishAction invocation" +
  has_client :: bool
  publishing :: nat
  published :: "(string \<times> string) list"
  client_ended :: bool

datatype publish_event =
    PubConnect
  | PublishCallback "string option"
  | PubError string

text \<open>\<open>new Promise((resolve => { this.invokeAsync(scenario); resolve(); }))\<close>:
  \<open>invokeAsync\<close> creates the client with \<open>Mqtt.connect(this.url, ...)\<close> and registers
  the handlers, then the executor resolves the promise. When \<open>Mqtt.connect\<close> throws,
  the exception leaves the executor before \<open>resolve()\<close>: the promise is rejected,
  there is no client, and nothing has been logged.\<close>

definition MqttPublishAction_invoke :: "env \<Rightarrow> MqttPublishAction \<Rightarrow> publish_invocation" where
  "MqttPublishAction_invoke E a =
     (case connect E (url a) of
        Inl e \<Rightarrow>
          \<lparr>self = a, promise = reject Pending, diagram = [], log = [], uncaught = [],
           has_client = False, publishing = 0, published = [], client_ended = False\<rparr>
      | Inr client \<Rightarrow>
          \<lparr>self = a, promise = resolve Pending, diagram = [], log = [], uncaught = [],
           has_client = True, publishing = 0, published = [], client_ended = False\<rparr>)"

definition encodeProtoPayload :: "env \<Rightarrow> MqttPublishAction \<Rightarrow> string \<Rightarrow> exn + string" where
  "encodeProtoPayload E a file =
     (case injectEvaluationToMap E (data a) of
        Inl e \<Rightarrow> Inl e
      | Inr d \<Rightarrow> encodeProto E file d (protoClass a))"

text \<open>\<open>this.protoFile ? this.encodeProtoPayload(ctx)
  : JSON.stringify(injectEvaluationToMap(this.data, ctx))\<close>\<close>

definition publish_payload :: "env \<Rightarrow> MqttPublishAction \<Rightarrow> exn + string" where
  "publish_payload E a =
     (case protoFile a of
        Some file \<Rightarrow>
          if file \<noteq> [] then encodeProtoPayload E a file
          else map_sum id (JSON_stringify E) (injectEvaluationToMap E (data a))
      | None \<Rightarrow> map_sum id (JSON_stringify E) (injectEvaluationToMap E (data a)))"

definition pub_on_connect :: "env \<Rightarrow> publish_invocation \<Rightarrow> publish_invocation" where
  "pub_on_connect E s =
     (let s1 = s\<lparr>log := log s @ [LogDebug ''MQTT connection successfully opened'']\<rparr>
      in case publish_payload E (self s) of
           Inl e \<Rightarrow> s1\<lparr>uncaught := uncaught s1 @ [e]\<rparr>
         | Inr payload \<Rightarrow>
             s1\<lparr>publishing := publishing s1 + 1,
                published := published s1 @ [(topic (self s), payload)]\<rparr>)"

definition pub_on_published :: "env \<Rightarrow> string option \<Rightarrow> publish_invocation \<Rightarrow> publish_invocation" where
  "pub_on_published E error s =
     (case error of
        Some msg \<Rightarrow>
          s\<lparr>publishing := publishing s - 1,
            log := log s @ [LogError ''Error while publishing'']\<rparr>
      | None \<Rightarrow>
          s\<lparr>publishing := publishing s - 1,
            log := log s @ [LogDebug ''Successfully published message''],
            diagram := diagram s @
              [MqttPublishMessage (topic (self s)) (JSON_stringify E (data (self s)))],
            client_ended := True\<rparr>)"

definition pub_on_error :: "string \<Rightarrow> publish_invocation \<Rightarrow> publish_invocation" where
  "pub_on_error msg s = s\<lparr>log := log s @ [LogError ''Error during connection'']\<rparr>"

text \<open>The client delivers one event to its handler; without a client there are no
  handlers. A publish callback comes only for a \<open>client.publish\<close> call that is under
  way.\<close>

definition pub_step :: "env \<Rightarrow> publish_invocation \<Rightarrow> publish_event \<Rightarrow> publish_invocation" where
  "pub_step E s ev =
     (if has_client s then
        (case ev of
           PubConnect \<Rightarrow> pub_on_connect E s
         | PublishCallback error \<Rightarrow> if publishing s = 0 then s else pub_on_published E error s
         | PubError msg \<Rightarrow> pub_on_error msg s)
      else s)"

definition pub_run :: "env \<Rightarrow> publish_invocation \<Rightarrow> publish_event list \<Rightarrow> publish_invocation" where
  "pub_run E s evs = foldl (pub_step E) s evs"

definition demo_publish :: MqttPublishAction where
  "demo_publish =
     \<lparr>name = ''announce'', description = ''announce'', type = MQTT_PUBLISH,
      invokeEvenOnFail = False, allowFailure = False, url = ''mqtt://broker'',
      username = None, password = None, topic = ''t'', data = JObj [], protoFile = None,
      protoClass = []\<rparr>"

section \<open>WebSocket (WebSocketAction.ts)\<close>

definition MAX_RECONNECTIONS :: nat where
  "MAX_RECONNECTIONS = 3"

text \<open>
  \<open>receivedMessages\<close> is a \<open>Set<string>\<close>: its elements in insertion order, each once.
  \<open>wsInstance\<close> holds the socket created last, sockets being numbered in the order
  of their creation.
\<close>

record WebSocketAction = Action +
  reconnected :: nat
  serviceName :: string
  url :: string
  headers :: "obj option"
  data :: "jsval option"
  expectedNumberOfMessages :: int
  messageFilter :: "string list option"
  receivedMessages :: "string list"
  wsInstance :: "nat option"

definition Set_add :: "string \<Rightarrow> string list \<Rightarrow> string list" where
  "Set_add x xs = (if x \<in> set xs then xs else xs @ [x])"

text \<open>\<open>sockets\<close> counts the \<open>new WebSocket\<close> calls of the invocation, \<open>sent\<close> lists
  every \<open>send\<close> with the socket it went to.\<close>

record ws_invocation = "WebSocketAction invocation" +
  sockets :: nat
  sent :: "(nat \<times> string) list"

datatype ws_event =
    OpenEvent nat
  | MessageEvent nat string
  | CloseEvent nat int
  | SocketError nat string

text \<open>The part of \<open>invokeAsync\<close> that runs at once: resolve the URL and the query
  parameters, create the socket with
  \<open>new WebSocket(`${resolvedUrl}?${stringify(queryParams)}`)\<close>, register its handlers.
  Each of the three may throw, and then no socket has been created.\<close>

definition invokeAsync :: "env \<Rightarrow> cache \<Rightarrow> ws_invocation \<Rightarrow> exn + ws_invocation" where
  "invokeAsync E c s =
     (case injectEvalAndVarsToString E (url (self s)) c of
        Inl e \<Rightarrow> Inl e
      | Inr resolvedUrl \<Rightarrow>
          (case injectEvalAndVarsToMap E (headers (self s)) c of
             Inl e \<Rightarrow> Inl e
           | Inr queryParams \<Rightarrow>
               (case WebSocket_new E (resolvedUrl @ ''?'' @ stringify E queryParams) of
                  Inl e \<Rightarrow> Inl e
                | Inr socket \<Rightarrow>
                    Inr (s\<lparr>self := (self s)\<lparr>wsInstance := Some (sockets s)\<rparr>,
                           sockets := sockets s + 1\<rparr>))))"

definition WebSocketAction_invoke :: "env \<Rightarrow> WebSocketAction \<Rightarrow> cache \<Rightarrow> ws_invocation" where
  "WebSocketAction_invoke E a c =
     (let s0 = \<lparr>self = a, promise = Pending, diagram = [], log = [], uncaught = [],
                sockets = 0, sent = []\<rparr>
      in case invokeAsync E c s0 of
           Inl e \<Rightarrow> s0\<lparr>promise := reject (promise s0)\<rparr>
         | Inr s \<Rightarrow> s)"

text \<open>\<open>if (this.data && this.reconnected === 0) this.wsInstance.send(JSON.stringify(this.data))\<close>\<close>

definition ws_on_open :: "env \<Rightarrow> ws_invocation \<Rightarrow> ws_invocation" where
  "ws_on_open E s =
     (let s1 = s\<lparr>log := log s @ [LogDebug ''WebSocket successfully opened!'']\<rparr>
      in case data (self s) of
           None \<Rightarrow> s1
         | Some d \<Rightarrow>
             if truthy d \<and> reconnected (self s) = 0 then
               (case wsInstance (self s) of
                  None \<Rightarrow> s1\<lparr>uncaught := uncaught s1 @ [Thrown ''TypeError'']\<rparr>
                | Some w \<Rightarrow>
                    s1\<lparr>sent := sent s1 @ [(w, JSON_stringify E d)],
                       log := log s1 @ [LogDebug ''WS message sent'']\<rparr>)
             else s1)"

definition ws_on_message :: "env \<Rightarrow> cache \<Rightarrow> string \<Rightarrow> ws_invocation \<Rightarrow> ws_invocation" where
  "ws_on_message E c d s =
     (case JSON_parse E d of
        Inl e \<Rightarrow> s\<lparr>uncaught := uncaught s @ [e]\<rparr>
      | Inr parsedMessage \<Rightarrow>
          (case isMessageRelevant E (messageFilter (self s)) c parsedMessage of
             Inl e \<Rightarrow> s\<lparr>uncaught := uncaught s @ [e]\<rparr>
           | Inr relevant \<Rightarrow>
               if relevant then
                 s\<lparr>self := (self s)\<lparr>receivedMessages := Set_add d (receivedMessages (self s))\<rparr>,
                   log := log s @ [LogDebug ''Relevant WS message received''],
                   diagram := diagram s @ [WsMessage (serviceName (self s)) parsedMessage]\<rparr>
               else s))"

definition ws_on_close :: "env \<Rightarrow> cache \<Rightarrow> int \<Rightarrow> ws_invocation \<Rightarrow> ws_invocation" where
  "ws_on_close E c closeCode s =
     (if closeCode = 1006 \<and> reconnected (self s) \<le> MAX_RECONNECTIONS then
        (let s1 = s\<lparr>log := log s @ [LogDebug ''reconnecting...''],
                    self := (self s)\<lparr>reconnected := reconnected (self s) + 1\<rparr>\<rparr>
         in case invokeAsync E c s1 of
              Inl e \<Rightarrow> s1\<lparr>uncaught := uncaught s1 @ [e]\<rparr>
            | Inr s2 \<Rightarrow> s2)
      else
        (let s1 = s\<lparr>log := log s @ [LogDebug ''Successfully closed WS connection'']\<rparr>
         in if int (length (receivedMessages (self s))) \<noteq> expectedNumberOfMessages (self s) then
              s1\<lparr>log := log s1 @ [LogError ''Unexpected number of messages retrieved''],
                 promise := reject (promise s)\<rparr>
            else s1\<lparr>promise := resolve (promise s)\<rparr>))"

definition ws_on_error :: "string \<Rightarrow> ws_invocation \<Rightarrow> ws_invocation" where
  "ws_on_error err s = s\<lparr>log := log s @ [LogError err], promise := reject (promise s)\<rparr>"

text \<open>A socket has handlers once the invocation has created it.\<close>

definition ws_step :: "env \<Rightarrow> cache \<Rightarrow> ws_invocation \<Rightarrow> ws_event \<Rightarrow> ws_invocation" where
  "ws_step E c s ev =
     (case ev of
        OpenEvent i \<Rightarrow> if i < sockets s then ws_on_open E s else s
      | MessageEvent i d \<Rightarrow> if i < sockets s then ws_on_message E c d s else s
      | CloseEvent i closeCode \<Rightarrow> if i < sockets s then ws_on_close E c closeCode s else s
      | SocketError i err \<Rightarrow> if i < sockets s then ws_on_error err s else s)"

definition ws_run :: "env \<Rightarrow> cache \<Rightarrow> ws_invocation \<Rightarrow> ws_event list \<Rightarrow> ws_invocation" where
  "ws_run E c s evs = foldl (ws_step E c) s evs"

definition demo_ws :: WebSocketAction where
  "demo_ws =
     \<lparr>name = ''feed'', description = ''feed'', type = WEBSOCKET, invokeEvenOnFail = False,
      allowFailure = False, reconnected = 0, serviceName = ''svc'', url = ''ws://svc'',
      headers = None, data = Some (JObj []), expectedNumberOfMessages = 1,
      messageFilter = None, receivedMessages = [], wsInstance = None\<rparr>"

definition demo_ws_trace :: "ws_event list" where
  "demo_ws_trace =
     [OpenEvent 0, CloseEvent 0 1006, OpenEvent 1, MessageEvent 1 ''{}'', CloseEvent 1 1000]"

text \<open>A run in which the first connection is lost before it has opened.\<close>

definition demo_ws_early_close_trace :: "ws_event list" where
  "demo_ws_early_close_trace =
     [CloseEvent 0 1006, OpenEvent 1, MessageEvent 1 ''{}'', CloseEvent 1 1000]"

text \<open>While no reconnect has happened the invocation has created at most one socket.\<close>

definition ws_inv :: "ws_invocation \<Rightarrow> bool" where
  "ws_inv s \<longleftrightarrow> (reconnected (self s) = 0 \<longrightarrow> sockets s \<le> 1)"

section \<open>REST (RestAction)\<close>

record RestAction = Action +
  serviceName :: string
  url :: string
  httpMethod :: "string option"
  queryParameters :: obj
  restHead :: "obj option"
  data :: "jsval option"
  dataBinary :: "string option"
  form :: "obj option"
  variableAsPayload :: "string option"
  responseValidation :: "string list"
  variables :: "obj option"
  expectedStatusCodes :: "int list"
  clientCertificate :: "string option"
  clientKey :: "string option"
  expectBinaryResponse :: bool
  diagramConfiguration :: DiagramConfiguration

text \<open>
  A constructor argument with a default: the default applies to \<open>undefined\<close> only,
  \<open>null\<close> is stored as it is. \<open>fromTemplate\<close> passes \<open>null\<close> for the form alone, so
  the other optional arguments are \<open>None\<close> (undefined) or a value.
\<close>

datatype 'a arg = Undefined | Null | Given 'a

fun arg_or :: "'a arg \<Rightarrow> 'a option \<Rightarrow> 'a option" where
  "arg_or Undefined d = d"
| "arg_or Null d = None"
| "arg_or (Given v) d = Some v"

text \<open>\<open>a ?? b\<close> on an optional value.\<close>

fun nullish :: "'a option \<Rightarrow> 'a \<Rightarrow> 'a" where
  "nullish None d = d"
| "nullish (Some v) d = v"

fun nullish_opt :: "'a option \<Rightarrow> 'a option \<Rightarrow> 'a option" where
  "nullish_opt None d = d"
| "nullish_opt (Some v) d = Some v"

definition RestAction_new ::
  "string \<Rightarrow> string option \<Rightarrow> RestActionDefinition \<Rightarrow> string \<Rightarrow> string \<Rightarrow>
   string option \<Rightarrow> obj option \<Rightarrow> obj option \<Rightarrow> jsval option \<Rightarrow> string option \<Rightarrow>
   obj arg \<Rightarrow> string option \<Rightarrow> string list option \<Rightarrow> obj option \<Rightarrow> int list option \<Rightarrow>
   bool option \<Rightarrow> bool option \<Rightarrow> string option \<Rightarrow> string option \<Rightarrow> bool option \<Rightarrow>
   DiagramConfiguration option \<Rightarrow> RestAction" where
  "RestAction_new nm desc actionDef u service restMethod queryParams restHeaders restData
     restDataBinary restForm varAsPayload validators vars expectedCodes invokeOnFail
     allowFail clientCert clientK expectBinary diagramConf =
     \<lparr>name = nm,
      description = nullish desc nm,
      type = REST,
      invokeEvenOnFail =
        nullish invokeOnFail (nullish (RestActionDefinition.invokeEvenOnFail actionDef) False),
      allowFailure =
        nullish allowFail (nullish (RestActionDefinition.allowFailure actionDef) False),
      serviceName = service,
      url = u,
      httpMethod = nullish_opt restMethod (RestActionDefinition.httpMethod actionDef),
      queryParameters =
        nullish queryParams (nullish (RestActionDefinition.queryParameters actionDef) []),
      restHead = nullish_opt restHeaders (RestActionDefinition.headers actionDef),
      data = nullish_opt restData (RestActionDefinition.data actionDef),
      dataBinary = nullish_opt restDataBinary (RestActionDefinition.dataBinary actionDef),
      form = arg_or restForm (RestActionDefinition.form actionDef),
      variableAsPayload =
        nullish_opt varAsPayload (RestActionDefinition.variableAsPayload actionDef),
      responseValidation =
        nullish validators (nullish (RestActionDefinition.responseValidation actionDef) []),
      variables = nullish_opt vars (RestActionDefinition.variables actionDef),
      expectedStatusCodes =
        nullish expectedCodes
          (nullish (RestActionDefinition.expectedStatusCodes actionDef) [200, 201, 204]),
      clientCertificate =
        nullish_opt clientCert (RestActionDefinition.clientCertificate actionDef),
      clientKey = nullish_opt clientK (RestActionDefinition.clientKey actionDef),
      expectBinaryResponse =
        nullish expectBinary (nullish (RestActionDefinition.expectBinaryResponse actionDef) False),
      diagramConfiguration =
        nullish diagramConf
          (nullish (RestActionDefinition.diagramConfiguration actionDef)
             \<lparr>hiddenFields = None, hidePlaintext = None\<rparr>)\<rparr>"

text \<open>
  The order in which a JavaScript object lists its own string keys: first the keys
  that are array indices (the canonical decimal numerals below \<open>2^32 - 1\<close>) in
  ascending numeric order, then the other keys in the order of their creation.
\<close>

definition is_digit :: "char \<Rightarrow> bool" where
  "is_digit ch \<longleftrightarrow> 48 \<le> (of_char ch :: int) \<and> (of_char ch :: int) \<le> 57"

definition numeral_value :: "string \<Rightarrow> int" where
  "numeral_value s = foldl (\<lambda>n ch. 10 * n + (of_char ch - 48)) 0 s"

definition is_array_index :: "string \<Rightarrow> bool" where
  "is_array_index s \<longleftrightarrow>
     s \<noteq> [] \<and> list_all is_digit s \<and> (s = ''0'' \<or> hd s \<noteq> CHR ''0'') \<and>
     numeral_value s < 4294967295"

definition property_order :: "(string \<times> 'v) list \<Rightarrow> (string \<times> 'v) list" where
  "property_order m =
     sort_key (\<lambda>p. numeral_value (fst p)) (filter (\<lambda>p. is_array_index (fst p)) m) @
     filter (\<lambda>p. \<not> is_array_index (fst p)) m"

text \<open>Object spread \<open>{...a, ...b}\<close>: the entries of \<open>a\<close> are created in their order, a key
  of \<open>b\<close> that \<open>a\<close> has takes the value of \<open>b\<close> in place, the other entries of \<open>b\<close>
  are created after them; the new object lists them in property order. Spreading
  \<open>undefined\<close> adds nothing.\<close>

definition spread :: "(string \<times> 'v) list \<Rightarrow> (string \<times> 'v) list \<Rightarrow> (string \<times> 'v) list" where
  "spread a b = property_order (fold (\<lambda>(k, v). AList.update k v) b a)"

definition entries_of :: "obj option \<Rightarrow> obj" where
  "entries_of x = (case x of None \<Rightarrow> [] | Some m \<Rightarrow> m)"

text \<open>The own enumerable entries a value contributes to a spread: those of an
  object, the elements of an array and the characters of a string under their
  indices. The data of an action comes from a YAML document: it is a scalar, a
  list or a mapping.\<close>

fun show_nat :: "nat \<Rightarrow> string" where
  "show_nat n =
     (if n < 10 then [char_of (48 + n)]
      else show_nat (n div 10) @ [char_of (48 + n mod 10)])"

definition indexed :: "'a list \<Rightarrow> (string \<times> 'a) list" where
  "indexed xs = map (\<lambda>(i, x). (show_nat i, x)) (enumerate 0 xs)"

fun own_entries :: "jsval option \<Rightarrow> (string \<times> jsval) list" where
  "own_entries (Some (JObj m)) = m"
| "own_entries (Some (JArr xs)) = indexed xs"
| "own_entries (Some (JStr t)) = indexed (map (\<lambda>ch. JStr [ch]) t)"
| "own_entries _ = []"

text \<open>\<open>if (template.data) { if (Array.isArray(template.data))
  return template.data.concat(actionDef.data || []);
  return {...template.data, ...actionDef.data}; } return actionDef.data;\<close>\<close>

definition loadData :: "RestAction \<Rightarrow> RestActionDefinition \<Rightarrow> jsval option" where
  "loadData template actionDef =
     (case data template of
        None \<Rightarrow> RestActionDefinition.data actionDef
      | Some d \<Rightarrow>
          if \<not> truthy d then RestActionDefinition.data actionDef
          else
            (case d of
               JArr xs \<Rightarrow>
                 Some (JArr (xs @ (case RestActionDefinition.data actionDef of
                                     None \<Rightarrow> []
                                   | Some (JArr ys) \<Rightarrow> ys
                                   | Some v \<Rightarrow> if truthy v then [v] else [])))
             | _ \<Rightarrow>
                 Some (JObj (spread (own_entries (Some d))
                               (own_entries (RestActionDefinition.data actionDef))))))"

definition fromTemplate :: "RestActionDefinition \<Rightarrow> RestAction \<Rightarrow> RestAction" where
  "fromTemplate actionDef template =
     RestAction_new
       (RestActionDefinition.name actionDef)
       (Some (nullish (RestActionDefinition.description actionDef)
                (RestActionDefinition.name actionDef)))
       actionDef
       (url template)
       (serviceName template)
       (nullish_opt (RestActionDefinition.httpMethod actionDef) (httpMethod template))
       (Some (spread (queryParameters template)
                (entries_of (RestActionDefinition.queryParameters actionDef))))
       (case restHead template of
          Some h \<Rightarrow> Some (spread h (entries_of (RestActionDefinition.headers actionDef)))
        | None \<Rightarrow> RestActionDefinition.restHead actionDef)
       (loadData template actionDef)
       (nullish_opt (RestActionDefinition.dataBinary actionDef) (dataBinary template))
       (case form template of
          Some f \<Rightarrow> Given (spread f (entries_of (RestActionDefinition.form actionDef)))
        | None \<Rightarrow> Null)
       (nullish_opt (RestActionDefinition.variableAsPayload actionDef) (variableAsPayload template))
       (Some (responseValidation template @
                nullish (RestActionDefinition.responseValidation actionDef) []))
       (Some (spread (entries_of (variables template))
                (entries_of (RestActionDefinition.variables actionDef))))
       (Some (nullish (RestActionDefinition.expectedStatusCodes actionDef)
                (expectedStatusCodes template)))
       (Some (nullish (RestActionDefinition.invokeEvenOnFail actionDef) (invokeEvenOnFail template)))
       (Some (nullish (RestActionDefinition.allowFailure actionDef) (allowFailure template)))
       (nullish_opt (RestActionDefinition.clientCertificate actionDef) (clientCertificate template))
       (nullish_opt (RestActionDefinition.clientKey actionDef) (clientKey template))
       (Some (nullish (RestActionDefinition.expectBinaryResponse actionDef)
                (expectBinaryResponse template)))
       (Some (nullish (RestActionDefinition.diagramConfiguration actionDef)
                (diagramConfiguration template)))"

text \<open>
  The invocation of a REST action: the scenario cache as the action leaves it and
  the options of every \<open>request(...)\<close> call made.
\<close>

record rest_invocation = "RestAction invocation" +
  cache :: cache
  requests :: "requestOptions list"

definition startsWith :: "string \<Rightarrow> string \<Rightarrow> bool" where
  "startsWith s p = (take (length p) s = p)"

text \<open>
  \<open>updateScenarioCache({res, head})\<close>: the entries of \<open>variables\<close> in order; a source
  expression starting with \<open>res\<close> is evaluated when \<open>res\<close> is given, else one starting
  with \<open>head\<close> when \<open>head\<close> is given, and the value stored under the entry's key.
  An exception of \<open>eval\<close> leaves the function with the entries stored so far.
\<close>

fun update_pairs ::
  "env \<Rightarrow> jsval \<Rightarrow> jsval \<Rightarrow> obj \<Rightarrow> cache \<times> log_entry list \<Rightarrow>
   exn option \<times> cache \<times> log_entry list" where
  "update_pairs E res head [] (c, lg) = (None, c, lg)"
| "update_pairs E res head ((k, v) # ps) (c, lg) =
     (if (startsWith v ''res'' \<and> res \<noteq> JUndefined) \<or>
         (startsWith v ''head'' \<and> head \<noteq> JUndefined) then
        (case js_eval E v [(''res'', res), (''head'', head)] of
           Inl e \<Rightarrow> (Some e, c, lg)
         | Inr x \<Rightarrow> update_pairs E res head ps (c(k \<mapsto> x), lg @ [LogDebug ''Setting cache'']))
      else update_pairs E res head ps (c, lg @ [LogDebug ''Setting cache'']))"

definition updateScenarioCache ::
  "env \<Rightarrow> jsval \<Rightarrow> jsval \<Rightarrow> rest_invocation \<Rightarrow> exn option \<times> rest_invocation" where
  "updateScenarioCache E res head s =
     (case variables (self s) of
        None \<Rightarrow> (None, s)
      | Some scenarioVariables \<Rightarrow>
          (case update_pairs E res head scenarioVariables (cache s, log s) of
             (x, c, lg) \<Rightarrow> (x, s\<lparr>cache := c, log := lg\<rparr>)))"

text \<open>\<open>validateHeaders(head, reject)\<close>: every validation starting with \<open>head.\<close> is
  evaluated; a falsy result and an exception each call \<open>reject\<close>, and the loop goes
  on.\<close>

fun validate_head_each :: "env \<Rightarrow> jsval \<Rightarrow> string list \<Rightarrow> rest_invocation \<Rightarrow> rest_invocation" where
  "validate_head_each E head [] s = s"
| "validate_head_each E head (v # vs) s =
     validate_head_each E head vs
       (case js_eval E v [(''head'', head)] of
          Inl e \<Rightarrow>
            s\<lparr>log := log s @ [LogError ''Error during header validation''],
              promise := reject (promise s)\<rparr>
        | Inr validationResult \<Rightarrow>
            if truthy validationResult then s\<lparr>log := log s @ [LogDebug ''Header validation'']\<rparr>
            else s\<lparr>log := log s @ [LogError ''Header validation''],
                   promise := reject (promise s)\<rparr>)"

definition validateHeaders :: "env \<Rightarrow> jsval \<Rightarrow> rest_invocation \<Rightarrow> rest_invocation" where
  "validateHeaders E head s =
     validate_head_each E head (filter (\<lambda>v. startsWith v ''head.'') (responseValidation (self s))) s"

text \<open>\<open>validateBody(res)\<close>: every validation starting with \<open>res.\<close> is evaluated; the
  first exception or falsy result throws.\<close>

fun validate_body_each ::
  "env \<Rightarrow> jsval \<Rightarrow> string list \<Rightarrow> rest_invocation \<Rightarrow> exn option \<times> rest_invocation" where
  "validate_body_each E res [] s = (None, s)"
| "validate_body_each E res (v # vs) s =
     (case js_eval E v [(''res'', res)] of
        Inl e \<Rightarrow>
          (Some (Thrown ''Error parsing validation''),
           s\<lparr>log := log s @ [LogError ''Error parsing validation'']\<rparr>)
      | Inr validationResult \<Rightarrow>
          if truthy validationResult then
            validate_body_each E res vs (s\<lparr>log := log s @ [LogDebug ''Body validation'']\<rparr>)
          else
            (Some (Thrown ''Incoming response body failed validation''),
             s\<lparr>log := log s @ [LogError ''Body validation'']\<rparr>))"

definition validateBody :: "env \<Rightarrow> jsval \<Rightarrow> rest_invocation \<Rightarrow> exn option \<times> rest_invocation" where
  "validateBody E res s =
     validate_body_each E res (filter (\<lambda>v. startsWith v ''res.'') (responseValidation (self s))) s"

definition parseResponseBody :: "env \<Rightarrow> response_body \<Rightarrow> string option \<Rightarrow> exn + jsval" where
  "parseResponseBody E b contentType =
     (case b of
        StringBody t \<Rightarrow>
          (case contentType of
             Some ct \<Rightarrow>
               if ct \<noteq> [] \<and> startsWith ct ''application/json'' then JSON_parse E t
               else if ct \<noteq> [] \<and> startsWith ct ''text/plain'' then Inr (JStr t)
               else Inr (JStr t)
           | None \<Rightarrow> Inr (JStr t))
      | BinaryBody bytes \<Rightarrow> Inr (JBuffer bytes))"

definition headers_value :: "obj \<Rightarrow> jsval" where
  "headers_value h = JObj (map (\<lambda>(k, v). (k, JStr v)) h)"

text \<open>
  \<open>generateRequestBody(reject)\<close>: the resolved data as JSON text, or a stream of the
  binary file, or the cached variable, which must be a string, a \<open>Buffer\<close> or a
  \<open>ReadStream\<close>: otherwise \<open>reject\<close> is called and the body is \<open>null\<close>.
\<close>

definition generateRequestBody ::
  "env \<Rightarrow> rest_invocation \<Rightarrow> exn + (request_body \<times> rest_invocation)" where
  "generateRequestBody E s =
     (case data (self s) of
        Some d \<Rightarrow>
          (case injectEvalAndVarsToData E d (cache s) of
             Inl e \<Rightarrow> Inl e
           | Inr resolved \<Rightarrow> Inr (TextBody (JSON_stringify E resolved), s))
      | None \<Rightarrow>
          (case dataBinary (self s) of
             Some path \<Rightarrow> Inr (StreamBody path, s)
           | None \<Rightarrow>
               (case variableAsPayload (self s) of
                  Some var \<Rightarrow>
                    (case cache s var of
                       Some (JStr t) \<Rightarrow> Inr (TextBody t, s)
                     | Some (JBuffer b) \<Rightarrow> Inr (BufferBody b, s)
                     | Some (JReadStream path) \<Rightarrow> Inr (StreamBody path, s)
                     | _ \<Rightarrow> Inr (NoBody, s\<lparr>promise := reject (promise s)\<rparr>))
                | None \<Rightarrow> Inr (NoBody, s))))"

definition readFromFileOrInput :: "env \<Rightarrow> string \<Rightarrow> exn + string" where
  "readFromFileOrInput E input =
     (if startsWith input ''file:'' then readFileSync E (drop 5 input) else Inr input)"

text \<open>\<open>getClientCertificateConfiguration\<close>: certificate and key when both are
  configured and readable; every exception is caught and logged.\<close>

definition resolve_optional :: "env \<Rightarrow> string option \<Rightarrow> cache \<Rightarrow> exn + string option" where
  "resolve_optional E x c =
     (case x of
        None \<Rightarrow> Inr None
      | Some t \<Rightarrow> if t = [] then Inr None else map_sum id Some (injectEvalAndVarsToString E t c))"

definition getClientCertificateConfiguration ::
  "env \<Rightarrow> rest_invocation \<Rightarrow> (string \<times> string) option \<times> rest_invocation" where
  "getClientCertificateConfiguration E s =
     (let failed = (None, s\<lparr>log := log s @ [LogError ''client certificate'']\<rparr>)
      in case resolve_optional E (clientCertificate (self s)) (cache s) of
           Inl e \<Rightarrow> failed
         | Inr cert \<Rightarrow>
             (case resolve_optional E (clientKey (self s)) (cache s) of
                Inl e \<Rightarrow> failed
              | Inr key \<Rightarrow>
                  (case (cert, key) of
                     (Some c1, Some k1) \<Rightarrow>
                       if c1 \<noteq> [] \<and> k1 \<noteq> [] then
                         (case readFromFileOrInput E c1 of
                            Inl e \<Rightarrow> failed
                          | Inr cf \<Rightarrow>
                              (case readFromFileOrInput E k1 of
                                 Inl e \<Rightarrow> failed
                               | Inr kf \<Rightarrow> (Some (cf, kf), s)))
                       else (None, s)
                   | _ \<Rightarrow> (None, s))))"

text \<open>The promise executor up to the call of \<open>request\<close>: the request options, or the
  exception that ends the executor.\<close>

definition build_request :: "env \<Rightarrow> rest_invocation \<Rightarrow> exn + (requestOptions \<times> rest_invocation)" where
  "build_request E s =
     (case (case restHead (self s) of
              None \<Rightarrow> Inr None
            | Some h \<Rightarrow> map_sum id Some (injectEvalAndVarsToMap E (Some h) (cache s))) of
        Inl e \<Rightarrow> Inl e
      | Inr requestHeaders \<Rightarrow>
          (case generateRequestBody E s of
             Inl e \<Rightarrow> Inl e
           | Inr (requestBody, s1) \<Rightarrow>
               (case (case form (self s) of
                        None \<Rightarrow> Inr None
                      | Some f \<Rightarrow> map_sum id Some (injectEvalAndVarsToMap E (Some f) (cache s))) of
                  Inl e \<Rightarrow> Inl e
                | Inr requestForm \<Rightarrow>
                    (case injectEvalAndVarsToString E (url (self s)) (cache s) of
                       Inl e \<Rightarrow> Inl e
                     | Inr baseURL \<Rightarrow>
                         (case (if queryParameters (self s) \<noteq> []
                                then map_sum id Some
                                       (injectEvalAndVarsToMap E (Some (queryParameters (self s))) (cache s))
                                else Inr None) of
                            Inl e \<Rightarrow> Inl e
                          | Inr resolvedQuery \<Rightarrow>
                              (case getClientCertificateConfiguration E s1 of
                                 (ck, s2) \<Rightarrow>
                                   Inr (\<lparr>requestOptions.httpMethod = httpMethod (self s),
                                         requestOptions.url =
                                           (case resolvedQuery of
                                              Some q \<Rightarrow> baseURL @ ''?'' @ stringify E q
                                            | None \<Rightarrow> baseURL),
                                         requestOptions.headers = requestHeaders,
                                         requestOptions.body = requestBody,
                                         encoding_null = expectBinaryResponse (self s),
                                         requestOptions.form = requestForm,
                                         maxAttempts = 3,
                                         retryDelay = 1000,
                                         fullResponse = True,
                                         cert_key = ck\<rparr>, s2)))))))"

text \<open>\<open>try { validateBody(parsedResponseBody); addSuccessfulResponseBody(...) }
  catch (e) { addValidationFailureResponseBody(...); reject(e) }\<close>\<close>

definition try_validateBody :: "env \<Rightarrow> jsval \<Rightarrow> rest_invocation \<Rightarrow> rest_invocation" where
  "try_validateBody E parsedResponseBody s =
     (case validateBody E parsedResponseBody s of
        (None, t) \<Rightarrow> t\<lparr>diagram := diagram t @ [SuccessfulResponseBody parsedResponseBody]\<rparr>
      | (Some (Thrown msg), t) \<Rightarrow>
          t\<lparr>diagram := diagram t @ [ValidationFailureResponseBody msg parsedResponseBody],
            promise := reject (promise t)\<rparr>)"

text \<open>The branch of a response with a body: parse it, validate it, then store the
  variables read from \<open>res\<close>.\<close>

definition on_body ::
  "env \<Rightarrow> Response \<Rightarrow> response_body \<Rightarrow> rest_invocation \<Rightarrow> exn option \<times> rest_invocation" where
  "on_body E response b s =
     (case parseResponseBody E b (map_of (Response.headers response) ''content-type'') of
        Inl e \<Rightarrow> (Some e, s)
      | Inr parsedResponseBody \<Rightarrow>
          updateScenarioCache E parsedResponseBody JUndefined
            (try_validateBody E parsedResponseBody
               (s\<lparr>diagram := diagram s @
                     [SuccessfulResponseArrow (serviceName (self s)) (statusCode response)]\<rparr>)))"

text \<open>The branch of an expected status code, up to \<open>resolve()\<close>. An exception leaves
  it before \<open>resolve()\<close> is reached.\<close>

definition on_expected_status ::
  "env \<Rightarrow> Response \<Rightarrow> rest_invocation \<Rightarrow> exn option \<times> rest_invocation" where
  "on_expected_status E response s =
     (let head = headers_value (Response.headers response)
      in case updateScenarioCache E JUndefined head
                (validateHeaders E head (s\<lparr>log := log s @ [LogDebug ''Response'']\<rparr>)) of
           (Some e, s2) \<Rightarrow> (Some e, s2)
         | (None, s2) \<Rightarrow>
             (case (case Response.body response of
                      None \<Rightarrow>
                        (None, s2\<lparr>diagram := diagram s2 @
                                     [SuccessfulResponse (serviceName (self s2)) (statusCode response)]\<rparr>)
                    | Some b \<Rightarrow> on_body E response b s2) of
                (Some e, s5) \<Rightarrow> (Some e, s5)
              | (None, s5) \<Rightarrow> (None, s5\<lparr>promise := resolve (promise s5)\<rparr>)))"

text \<open>The \<open>then\<close> handler of the request: the response has arrived. An exception
  leaves the handler for the \<open>catch\<close> handler.\<close>

definition on_response :: "env \<Rightarrow> Response \<Rightarrow> rest_invocation \<Rightarrow> exn option \<times> rest_invocation" where
  "on_response E response s0 =
     (let s = s0\<lparr>log := log s0 @ [LogDebug ''Calling''],
                 diagram := diagram s0 @
                   [Request (serviceName (self s0))
                      (request_method response @ '' '' @ request_path response)]\<rparr>
      in if statusCode response \<in> set (expectedStatusCodes (self s)) then
           on_expected_status E response s
         else
           (None, s\<lparr>log := log s @ [LogError ''Response''],
                    diagram := diagram s @
                      [FailedResponse (serviceName (self s)) (statusCode response)],
                    promise := reject (promise s)\<rparr>))"

text \<open>The state in which the promise executor starts.\<close>

definition rest_init :: "RestAction \<Rightarrow> cache \<Rightarrow> rest_invocation" where
  "rest_init a c =
     \<lparr>self = a, promise = Pending, diagram = [],
      log = [LogDebug ''Expected status codes''], uncaught = [],
      cache = c, requests = []\<rparr>"

text \<open>\<open>request(requestOptions).then(...).catch(...)\<close>: the response goes to the \<open>then\<close>
  handler; a transport error and an exception of the \<open>then\<close> handler go to the
  \<open>catch\<close> handler, which logs and rejects.\<close>

definition on_request_done :: "env \<Rightarrow> string + Response \<Rightarrow> rest_invocation \<Rightarrow> rest_invocation" where
  "on_request_done E outcome s =
     (case outcome of
        Inl error \<Rightarrow>
          s\<lparr>log := log s @ [LogError ''Unexpected ERROR occurred''],
            promise := reject (promise s)\<rparr>
      | Inr response \<Rightarrow>
          (case on_response E response s of
             (None, s3) \<Rightarrow> s3
           | (Some e, s3) \<Rightarrow>
               s3\<lparr>log := log s3 @ [LogError ''Unexpected ERROR occurred''],
                  promise := reject (promise s3)\<rparr>))"

text \<open>\<open>invoke\<close>: the executor builds the options and calls \<open>request\<close> once; an
  exception thrown before that rejects the promise.\<close>

definition RestAction_invoke :: "env \<Rightarrow> RestAction \<Rightarrow> cache \<Rightarrow> rest_invocation" where
  "RestAction_invoke E a c =
     (case build_request E (rest_init a c) of
        Inl e \<Rightarrow> (rest_init a c)\<lparr>promise := reject (promise (rest_init a c))\<rparr>
      | Inr (requestOptions, s1) \<Rightarrow>
          on_request_done E (request E requestOptions)
            (s1\<lparr>requests := requests s1 @ [requestOptions]\<rparr>))"

text \<open>A validation fails when its evaluation throws or yields a falsy value.\<close>

definition validation_fails :: "env \<Rightarrow> (string \<times> jsval) list \<Rightarrow> string \<Rightarrow> bool" where
  "validation_fails E scope v =
     (case js_eval E v scope of Inl e \<Rightarrow> True | Inr x \<Rightarrow> \<not> truthy x)"

definition head_validation_fails :: "env \<Rightarrow> RestAction \<Rightarrow> Response \<Rightarrow> bool" where
  "head_validation_fails E a response =
     list_ex (validation_fails E [(''head'', headers_value (Response.headers response))])
       (filter (\<lambda>v. startsWith v ''head.'') (responseValidation a))"

definition body_validation_fails :: "env \<Rightarrow> RestAction \<Rightarrow> jsval \<Rightarrow> bool" where
  "body_validation_fails E a parsedResponseBody =
     list_ex (validation_fails E [(''res'', parsedResponseBody)])
       (filter (\<lambda>v. startsWith v ''res.'') (responseValidation a))"

text \<open>Two REST invocations agree on everything the cache writes depend on.\<close>

definition sim :: "rest_invocation \<Rightarrow> rest_invocation \<Rightarrow> bool" where
  "sim s t \<longleftrightarrow>
     cache s = cache t \<and> requests s = requests t \<and>
     serviceName (self s) = serviceName (self t) \<and> url (self s) = url (self t) \<and>
     httpMethod (self s) = httpMethod (self t) \<and> queryParameters (self s) = queryParameters (self t) \<and>
     restHead (self s) = restHead (self t) \<and> data (self s) = data (self t) \<and>
     dataBinary (self s) = dataBinary (self t) \<and> form (self s) = form (self t) \<and>
     variableAsPayload (self s) = variableAsPayload (self t) \<and>
     variables (self s) = variables (self t) \<and>
     expectedStatusCodes (self s) = expectedStatusCodes (self t) \<and>
     clientCertificate (self s) = clientCertificate (self t) \<and>
     clientKey (self s) = clientKey (self t) \<and>
     expectBinaryResponse (self s) = expectBinaryResponse (self t)"

text \<open>A REST action that reads the variable \<open>token\<close> from the response body and
  validates \<open>res.ok\<close>, and a definition with a template to merge it with.\<close>

definition demo_rest :: RestAction where
  "demo_rest =
     \<lparr>name = ''login'', description = ''login'', type = REST, invokeEvenOnFail = False,
      allowFailure = False, serviceName = ''auth'', url = ''http://auth/login'',
      httpMethod = Some ''POST'', queryParameters = [], restHead = Some [(''Accept'', ''*/*'')],
      data = None, dataBinary = None, form = None, variableAsPayload = None,
      responseValidation = [''res.ok''], variables = Some [(''token'', ''res'')],
      expectedStatusCodes = [200, 201, 204], clientCertificate = None, clientKey = None,
      expectBinaryResponse = False,
      diagramConfiguration = \<lparr>hiddenFields = None, hidePlaintext = None\<rparr>\<rparr>"

definition demo_definition :: RestActionDefinition where
  "demo_definition =
     \<lparr>RestActionDefinition.name = ''login-as-admin'',
      RestActionDefinition.description = None,
      RestActionDefinition.httpMethod = None,
      RestActionDefinition.queryParameters = None,
      RestActionDefinition.headers = Some [(''Authorization'', ''Basic abc'')],
      RestActionDefinition.restHead = None,
      RestActionDefinition.data = None,
      RestActionDefinition.dataBinary = None,
      RestActionDefinition.form = Some [(''grant_type'', ''password'')],
      RestActionDefinition.variableAsPayload = None,
      RestActionDefinition.responseValidation = None,
      RestActionDefinition.variables = None,
      RestActionDefinition.expectedStatusCodes = None,
      RestActionDefinition.invokeEvenOnFail = None,
      RestActionDefinition.allowFailure = None,
      RestActionDefinition.clientCertificate = None,
      RestActionDefinition.clientKey = None,
      RestActionDefinition.expectBinaryResponse = None,
      RestActionDefinition.diagramConfiguration = None\<rparr>"

text \<open>The same collaborators with a service that answers every request with
  status 404.\<close>

definition demo_env_404 :: env where
  "demo_env_404 =
     demo_env\<lparr>request :=
       (\<lambda>opts. Inr \<lparr>statusCode = 404, statusMessage = ''Not Found'',
                     headers = [(''content-type'', ''application/json'')],
                     body = Some (StringBody ''{}''), request_method = ''POST'',
                     request_path = ''/login''\<rparr>)\<rparr>"

definition demo_request :: requestOptions where
  "demo_request =
     \<lparr>requestOptions.httpMethod = Some ''POST'', requestOptions.url = ''http://auth/login'',
      requestOptions.headers = Some [(''Accept'', ''*/*'')], requestOptions.body = NoBody,
      encoding_null = False, requestOptions.form = None, maxAttempts = 3, retryDelay = 1000,
      fullResponse = True, cert_key = None\<rparr>"

text \<open>The action \<open>a\<close> with the three fields a WebSocket invocation writes taken
  from \<open>b\<close>.\<close>

definition ws_state :: "WebSocketAction \<Rightarrow> WebSocketAction \<Rightarrow> WebSocketAction" where
  "ws_state a b =
     a\<lparr>reconnected := reconnected b, receivedMessages := receivedMessages b,
       wsInstance := wsInstance b\<rparr>"

text \<open>
  \<open>read_from res head v\<close> is the condition under which \<open>updateScenarioCache\<close>
  evaluates the source expression \<open>v\<close> of a variable and stores its value;
  \<open>evaluates E scope e\<close> says that \<open>eval(e)\<close> returns a value rather than throwing.
\<close>

definition read_from :: "jsval \<Rightarrow> jsval \<Rightarrow> string \<Rightarrow> bool" where
  "read_from res head v \<longleftrightarrow>
     startsWith v ''res'' \<and> res \<noteq> JUndefined \<or> startsWith v ''head'' \<and> head \<noteq> JUndefined"

definition evaluates :: "env \<Rightarrow> (string \<times> jsval) list \<Rightarrow> string \<Rightarrow> bool" where
  "evaluates E scope e = (case js_eval E e scope of Inl x \<Rightarrow> False | Inr v \<Rightarrow> True)"

text \<open>A REST action that reads one variable from the response body and one from
  the response headers, and whose header validation and body validation both fail
  at the demo response.\<close>

definition demo_rest_vars :: RestAction where
  "demo_rest_vars =
     demo_rest\<lparr>responseValidation := [''res.ok'', ''head.x''],
               variables := Some [(''token'', ''res''), (''ctype'', ''head'')]\<rparr>"

section \<open>Properties of the scenario runner\<close>

lemma push_result_Some:
  "R n = Some rs \<Longrightarrow> push_result n r R n = Some (rs @ [r])"
  by (simp add: push_result_def)

lemma invoke_one_Failed:
  assumes "ivk a (world st) = (Failed, d, w')"
  shows "invoked (invoke_one ivk n st a) = invoked st @ [a]"
    and "\<not> run_successful (invoke_one ivk n st a)"
    and "blocked (invoke_one ivk n st a) = blocked st"
    and "RESULTS (invoke_one ivk n st a) =
           push_result n \<lparr>action = description a, duration = d, successful = False\<rparr> (RESULTS st)"
  using assms by (simp_all add: invoke_one_def handleError_def Let_def)

lemma invoke_one_continues:
  assumes "run_successful (invoke_one ivk n st a)" and "\<not> blocked (invoke_one ivk n st a)"
  shows "\<exists>d w'. ivk a (world st) = (Fulfilled, d, w') \<and>
           invoked (invoke_one ivk n st a) = invoked st @ [a] \<and>
           RESULTS (invoke_one ivk n st a) =
             push_result n \<lparr>action = description a, duration = d, successful = True\<rparr> (RESULTS st)"
proof -
  obtain out d w' where o: "ivk a (world st) = (out, d, w')"
    by (cases "ivk a (world st)") auto
  with assms have "out = Fulfilled"
    by (cases out) (simp_all add: invoke_one_def handleError_def Let_def)
  with o show ?thesis
    by (simp add: invoke_one_def Let_def)
qed

lemma for_actions_append:
  assumes "run_successful (for_actions ivk n st xs)" and "\<not> blocked (for_actions ivk n st xs)"
  shows "for_actions ivk n st (xs @ ys) = for_actions ivk n (for_actions ivk n st xs) ys"
  using assms
proof (induction xs arbitrary: st)
  case Nil
  then show ?case by simp
next
  case (Cons x xs)
  let ?s = "invoke_one ivk n st x"
  from Cons.prems have go: "\<not> blocked ?s" "run_successful ?s"
    by (auto simp: Let_def split: if_splits)
  with Cons.prems have "run_successful (for_actions ivk n ?s xs)" "\<not> blocked (for_actions ivk n ?s xs)"
    by (simp_all add: Let_def)
  from Cons.IH [OF this] go show ?case
    by (simp add: Let_def)
qed

text \<open>While no action has failed or hung, every action of the prefix has been invoked
  and has one successful result.\<close>

lemma for_actions_all_fulfilled:
  assumes "run_successful (for_actions ivk n st xs)" and "\<not> blocked (for_actions ivk n st xs)"
    and "RESULTS st n = Some rs0"
  shows "invoked (for_actions ivk n st xs) = invoked st @ xs \<and>
         (\<exists>rs. RESULTS (for_actions ivk n st xs) n = Some (rs0 @ rs) \<and>
               map action rs = map description xs \<and> list_all successful rs)"
  using assms
proof (induction xs arbitrary: st rs0)
  case Nil
  then show ?case by simp
next
  case (Cons x xs)
  let ?s = "invoke_one ivk n st x"
  from Cons.prems have go: "\<not> blocked ?s" "run_successful ?s"
    by (auto simp: Let_def split: if_splits)
  with Cons.prems have fin: "for_actions ivk n st (x # xs) = for_actions ivk n ?s xs"
    by (simp add: Let_def)
  from invoke_one_continues [OF go(2) go(1)] obtain d w' where
    one: "invoked ?s = invoked st @ [x]"
      "RESULTS ?s = push_result n \<lparr>action = description x, duration = d, successful = True\<rparr> (RESULTS st)"
    by blast
  let ?r = "\<lparr>action = description x, duration = d, successful = True\<rparr>"
  from one(2) Cons.prems(3) have r1: "RESULTS ?s n = Some ((rs0 @ [?r]))"
    by (simp add: push_result_Some)
  from Cons.prems(1,2) fin have "run_successful (for_actions ivk n ?s xs)" "\<not> blocked (for_actions ivk n ?s xs)"
    by simp_all
  from Cons.IH [OF this r1] obtain rs where
    ih: "invoked (for_actions ivk n ?s xs) = invoked ?s @ xs"
      "RESULTS (for_actions ivk n ?s xs) n = Some ((rs0 @ [?r]) @ rs)"
      "map action rs = map description xs" "list_all successful rs"
    by blast
  have "RESULTS (for_actions ivk n st (x # xs)) n = Some (rs0 @ (?r # rs))"
    using ih(2) fin by simp
  moreover have "map action (?r # rs) = map description (x # xs)" "list_all successful (?r # rs)"
    using ih(3,4) by simp_all
  moreover have "invoked (for_actions ivk n st (x # xs)) = invoked st @ x # xs"
    using ih(1) one(1) fin by simp
  ultimately show ?case by blast
qed

text \<open>
  C2. Fail-fast. Let the scenario's actions be \<open>pre @ a # post\<close>, let every action of
  \<open>pre\<close> have been awaited without a failure, and let the promise of \<open>a\<close> be rejected.
  Then \<open>invokeActionsSynchronously\<close> invokes exactly \<open>pre @ [a]\<close> (no action of \<open>post\<close>
  is ever invoked), the scenario's results are one successful result per action of
  \<open>pre\<close> followed by a failed \<open>TestResult\<close> carrying the description of \<open>a\<close>, the flag
  \<open>successful\<close> is false, and the result list contains the failure the exit status
  is computed from.
\<close>

theorem fail_fast:
  assumes acts: "actions sc = pre @ a # post"
    and st: "st = for_actions ivk (scenarioName sc) (init_run sc R w) pre"
    and ok: "run_successful st" "\<not> blocked st"
    and fails: "ivk a (world st) = (Failed, d, w')"
  shows "invoked (invokeActionsSynchronously ivk sc R w) = pre @ [a] \<and>
         \<not> run_successful (invokeActionsSynchronously ivk sc R w) \<and>
         (\<exists>rs. RESULTS (invokeActionsSynchronously ivk sc R w) (scenarioName sc) =
                  Some (rs @ [\<lparr>action = description a, duration = d, successful = False\<rparr>]) \<and>
               map action rs = map description pre \<and> list_all successful rs \<and>
               has_failed_result (rs @ [\<lparr>action = description a, duration = d, successful = False\<rparr>]))"
proof -
  let ?n = "scenarioName sc"
  let ?i = "init_run sc R w"
  let ?f = "\<lparr>action = description a, duration = d, successful = False\<rparr>"
  have i0: "RESULTS ?i ?n = Some []" "invoked ?i = []"
    by (simp_all add: init_run_def)
  from for_actions_all_fulfilled [of ivk ?n ?i pre "[]"] ok st i0 obtain rs where
    pre: "invoked st = pre" "RESULTS st ?n = Some rs"
      "map action rs = map description pre" "list_all successful rs"
    by auto
  let ?s = "invoke_one ivk ?n st a"
  have "for_actions ivk ?n ?i (pre @ a # post) = for_actions ivk ?n st (a # post)"
    using for_actions_append [of ivk ?n ?i pre "a # post"] ok st by simp
  also have "\<dots> = ?s"
    using invoke_one_Failed(2) [where ivk = ivk and a = a and st = st and n = ?n, OF fails]
    by (simp add: Let_def)
  finally have run: "for_actions ivk ?n ?i (actions sc) = ?s"
    by (simp add: acts)
  have s1: "invoked ?s = pre @ [a]" "\<not> run_successful ?s" "RESULTS ?s ?n = Some (rs @ [?f])"
    using invoke_one_Failed [where ivk = ivk and a = a and st = st and n = ?n, OF fails] pre(1,2)
    by (simp_all add: push_result_Some)
  have fin: "invoked (invokeActionsSynchronously ivk sc R w) = invoked ?s"
    "run_successful (invokeActionsSynchronously ivk sc R w) = run_successful ?s"
    "RESULTS (invokeActionsSynchronously ivk sc R w) = RESULTS ?s"
    by (simp_all add: invokeActionsSynchronously_def run Let_def)
  have "has_failed_result (rs @ [?f])"
    by (simp add: has_failed_result_def)
  with s1 fin pre(3,4) show ?thesis by auto
qed

theorem fail_fast_witness:
  "invoked (invokeActionsSynchronously demo_invoker demo_scenario Map.empty 0) =
     [demo_action ''login'' WEBSOCKET, demo_action ''order'' REST] \<and>
   \<not> run_successful (invokeActionsSynchronously demo_invoker demo_scenario Map.empty 0) \<and>
   (\<exists>rs. RESULTS (invokeActionsSynchronously demo_invoker demo_scenario Map.empty 0) ''s1'' =
            Some (rs @ [\<lparr>action = ''order'', duration = ''1.00'', successful = False\<rparr>]) \<and>
          map action rs = [''login''] \<and> list_all successful rs \<and>
          has_failed_result (rs @ [\<lparr>action = ''order'', duration = ''1.00'', successful = False\<rparr>]))"
proof -
  let ?st = "for_actions demo_invoker ''s1'' (init_run demo_scenario Map.empty 0)
               [demo_action ''login'' WEBSOCKET]"
  have ok: "run_successful ?st" "\<not> blocked ?st"
    by code_simp+
  have f: "demo_invoker (demo_action ''order'' REST) (world ?st) = (Failed, ''1.00'', 2)"
    by code_simp
  have a: "actions demo_scenario =
             [demo_action ''login'' WEBSOCKET] @ demo_action ''order'' REST # [demo_action ''logout'' REST]"
    by (simp add: demo_scenario_def)
  have n: "scenarioName demo_scenario = ''s1''"
    by (simp add: demo_scenario_def)
  note ff = fail_fast [where sc = demo_scenario and pre = "[demo_action ''login'' WEBSOCKET]"
      and a = "demo_action ''order'' REST" and post = "[demo_action ''logout'' REST]"
      and ivk = demo_invoker and R = Map.empty and w = 0 and st = ?st
      and d = "''1.00''" and w' = 2]
  from ff a n ok f show ?thesis by (simp add: demo_action_def)
qed

section \<open>Properties of the MQTT subscribe action\<close>

lemma promise_on_message: "promise (on_message E c t m s) = promise s"
  by (simp add: on_message_def split: sum.splits)

lemma reject_not_Resolved: "reject p = Resolved \<longleftrightarrow> p = Resolved"
  by (cases p) simp_all

lemma resolve_Resolved: "resolve p = Resolved \<longleftrightarrow> p \<noteq> Rejected"
  by (cases p) simp_all

lemma settle_sticky: "p \<noteq> Pending \<Longrightarrow> resolve p = p" "p \<noteq> Pending \<Longrightarrow> reject p = p"
  by (cases p; simp)+

lemma promise_mqtt_step:
  "promise (mqtt_step E c s ev) =
     (case client_topic s of
        None \<Rightarrow> promise s
      | Some t \<Rightarrow>
          (case ev of
             Close \<Rightarrow> if numberOfReceivedMessages (self s) = MqttAction.expectedNumberOfMessages (self s)
                      then resolve (promise s) else reject (promise s)
           | ErrorEvent msg \<Rightarrow> reject (promise s)
           | SubscribeCallback (Some msg) \<Rightarrow> reject (promise s)
           | _ \<Rightarrow> promise s))"
  by (simp add: mqtt_step_def on_connect_def on_subscribe_def on_timer_def promise_on_message
      on_close_def on_error_def Let_def split: option.splits mqtt_event.splits list.splits)

lemma mqtt_step_sticky: "promise s \<noteq> Pending \<Longrightarrow> promise (mqtt_step E c s ev) = promise s"
  by (simp add: promise_mqtt_step settle_sticky split: option.splits mqtt_event.splits)

lemma mqtt_run_sticky: "promise s \<noteq> Pending \<Longrightarrow> promise (mqtt_run E c s evs) = promise s"
  unfolding mqtt_run_def
  by (induction evs arbitrary: s) (simp_all add: mqtt_step_sticky)

lemma client_topic_mqtt_step: "client_topic (mqtt_step E c s ev) = client_topic s"
  by (simp add: mqtt_step_def on_connect_def on_subscribe_def on_timer_def on_message_def
      on_close_def on_error_def Let_def split: option.splits mqtt_event.splits list.splits sum.splits)

lemma mqtt_step_Resolved:
  "promise s = Pending \<Longrightarrow>
   promise (mqtt_step E c s ev) = Resolved \<longleftrightarrow>
     ev = Close \<and> client_topic s \<noteq> None \<and>
     numberOfReceivedMessages (self s) = MqttAction.expectedNumberOfMessages (self s)"
  by (auto simp add: promise_mqtt_step split: option.splits mqtt_event.splits)

lemma mqtt_run_Cons: "mqtt_run E c s (ev # evs) = mqtt_run E c (mqtt_step E c s ev) evs"
  by (simp add: mqtt_run_def)

lemma mqtt_run_Resolved:
  assumes "promise s = Pending" and "client_topic s \<noteq> None"
  shows "promise (mqtt_run E c s evs) = Resolved \<longleftrightarrow>
     (\<exists>pre post. evs = pre @ Close # post \<and> promise (mqtt_run E c s pre) = Pending \<and>
        numberOfReceivedMessages (self (mqtt_run E c s pre)) =
          MqttAction.expectedNumberOfMessages (self (mqtt_run E c s pre)))"
  using assms
proof (induction evs arbitrary: s)
  case Nil
  then show ?case by (simp add: mqtt_run_def)
next
  case (Cons ev evs)
  let ?s = "mqtt_step E c s ev"
  let ?P = "\<lambda>s pre. promise (mqtt_run E c s pre) = Pending \<and>
        numberOfReceivedMessages (self (mqtt_run E c s pre)) =
          MqttAction.expectedNumberOfMessages (self (mqtt_run E c s pre))"
  have ct: "client_topic ?s \<noteq> None"
    using Cons.prems(2) by (simp add: client_topic_mqtt_step)
  show ?case
  proof (cases "promise ?s = Pending")
    case True
    note ih = Cons.IH [OF True ct]
    have "(\<exists>pre post. ev # evs = pre @ Close # post \<and> ?P s pre) \<longleftrightarrow>
          (\<exists>pre post. evs = pre @ Close # post \<and> ?P ?s pre)" (is "?L \<longleftrightarrow> ?R")
    proof
      assume ?L
      then obtain pre post where d: "ev # evs = pre @ Close # post" "?P s pre" by blast
      show ?R
      proof (cases pre)
        case Nil
        with d have "ev = Close"
          "numberOfReceivedMessages (self s) = MqttAction.expectedNumberOfMessages (self s)"
          by (simp_all add: mqtt_run_def)
        with Cons.prems have "promise ?s = Resolved"
          by (simp add: mqtt_step_Resolved)
        with True show ?thesis by simp
      next
        case (Cons e pre')
        with d show ?thesis by (auto simp: mqtt_run_Cons)
      qed
    next
      assume ?R
      then obtain pre post where "evs = pre @ Close # post" "?P ?s pre" by blast
      then have "ev # evs = (ev # pre) @ Close # post" "?P s (ev # pre)"
        by (simp_all add: mqtt_run_Cons)
      then show ?L by blast
    qed
    with ih show ?thesis by (simp add: mqtt_run_Cons)
  next
    case False
    then have fin: "promise (mqtt_run E c s (ev # evs)) = promise ?s"
      by (simp add: mqtt_run_Cons mqtt_run_sticky)
    show ?thesis
    proof
      assume "promise (mqtt_run E c s (ev # evs)) = Resolved"
      with fin have "promise ?s = Resolved" by simp
      with mqtt_step_Resolved [OF Cons.prems(1), of E c ev] have "ev = Close"
        "numberOfReceivedMessages (self s) = MqttAction.expectedNumberOfMessages (self s)"
        by simp_all
      with Cons.prems(1) have "ev # evs = [] @ Close # evs \<and> ?P s []"
        by (simp add: mqtt_run_def)
      then show "\<exists>pre post. ev # evs = pre @ Close # post \<and> ?P s pre" by blast
    next
      assume "\<exists>pre post. ev # evs = pre @ Close # post \<and> ?P s pre"
      then obtain pre post where d: "ev # evs = pre @ Close # post" "?P s pre" by blast
      show "promise (mqtt_run E c s (ev # evs)) = Resolved"
      proof (cases pre)
        case Nil
        with d have "ev = Close"
          "numberOfReceivedMessages (self s) = MqttAction.expectedNumberOfMessages (self s)"
          by (simp_all add: mqtt_run_def)
        with mqtt_step_Resolved [OF Cons.prems(1), of E c ev] Cons.prems(2) fin
        show ?thesis by simp
      next
        case (Cons e pre')
        with d have "promise (mqtt_run E c ?s pre') = Pending"
          by (simp add: mqtt_run_Cons)
        with False show ?thesis by (simp add: mqtt_run_sticky)
      qed
    qed
  qed
qed


lemma end_called_mqtt_step:
  "end_called (mqtt_step E c s ev) \<longleftrightarrow>
     end_called s \<or> (ev = TimerFired \<and> timers s \<noteq> [] \<and> client_topic s \<noteq> None)"
  by (cases ev)
     (auto simp add: mqtt_step_def on_connect_def on_subscribe_def on_timer_def on_message_def
        on_close_def on_error_def Let_def split: option.splits list.splits sum.splits)

lemma end_called_mqtt_run: "end_called s \<Longrightarrow> end_called (mqtt_run E c s evs)"
  unfolding mqtt_run_def
  by (induction evs arbitrary: s) (simp_all add: end_called_mqtt_step)

lemma mqtt_run_append:
  "mqtt_run E c s (xs @ ys) = mqtt_run E c (mqtt_run E c s xs) ys"
  by (simp add: mqtt_run_def)

lemma closes_after_timer_Close:
  "closes_after_timer E c s (pre @ Close # post) \<Longrightarrow> end_called (mqtt_run E c s pre)"
  by (induction pre arbitrary: s) (simp_all add: mqtt_run_def)

lemma closes_after_timer_end_called:
  assumes "closes_after_timer E c s evs" and "Close \<in> set evs"
  shows "end_called (mqtt_run E c s evs)"
proof -
  from assms(2) obtain pre post where d: "evs = pre @ Close # post"
    by (auto dest: split_list)
  with assms(1) have "end_called (mqtt_run E c s pre)"
    by (simp add: closes_after_timer_Close)
  then have "end_called (mqtt_run E c (mqtt_run E c s pre) (Close # post))"
    by (rule end_called_mqtt_run)
  with d show ?thesis by (simp add: mqtt_run_append)
qed

lemma mqtt_run_Close_settles:
  "client_topic s \<noteq> None \<Longrightarrow> Close \<in> set evs \<Longrightarrow> promise (mqtt_run E c s evs) \<noteq> Pending"
proof (induction evs arbitrary: s)
  case Nil
  then show ?case by simp
next
  case (Cons ev evs)
  let ?s = "mqtt_step E c s ev"
  have ct: "client_topic ?s \<noteq> None"
    using Cons.prems(1) by (simp add: client_topic_mqtt_step)
  show ?case
  proof (cases "ev = Close")
    case True
    with Cons.prems(1) have "promise ?s \<noteq> Pending"
      by (cases "promise s") (auto simp add: promise_mqtt_step)
    then show ?thesis by (simp add: mqtt_run_Cons mqtt_run_sticky)
  next
    case False
    with Cons.prems(2) have "Close \<in> set evs" by simp
    from Cons.IH [OF ct this] show ?thesis by (simp add: mqtt_run_Cons)
  qed
qed

lemma mqtt_run_stays_Pending:
  "promise s = Pending \<Longrightarrow> Close \<notin> set evs \<Longrightarrow> \<not> list_ex reports_error evs \<Longrightarrow>
   promise (mqtt_run E c s evs) = Pending"
proof (induction evs arbitrary: s)
  case Nil
  then show ?case by (simp add: mqtt_run_def)
next
  case (Cons ev evs)
  from Cons.prems have "promise (mqtt_step E c s ev) = Pending"
    by (cases ev rule: reports_error.cases)
       (simp_all add: promise_mqtt_step split: option.splits)
  with Cons.IH [of "mqtt_step E c s ev"] Cons.prems show ?case
    by (simp add: mqtt_run_Cons)
qed

lemma promise_MqttAction_invoke:
  "promise (MqttAction_invoke E a c) = Pending \<and> client_topic (MqttAction_invoke E a c) \<noteq> None \<or>
   promise (MqttAction_invoke E a c) = Rejected \<and> client_topic (MqttAction_invoke E a c) = None"
  by (simp add: MqttAction_invoke_def split: sum.splits prod.splits)

text \<open>
  C1 (as amended). Take an MQTT subscribe invocation whose connection closes only
  after the listen timer has called \<open>client.end()\<close>. It succeeds if and only if its
  first \<open>close\<close> event, which comes after the timer has fired, finds the promise
  still pending and the action's received-message counter equal to the expected
  count. The timer is armed while handling \<open>connect\<close>, with \<open>durationInSec * 1000\<close>
  milliseconds, and only its firing calls \<open>client.end()\<close>. Reaching the expected
  count early never completes the invocation: no message settles the promise, and
  while the timer has not fired and no error has been reported the invocation is
  still pending. A \<open>close\<close> after the timer has fired that finds a pending promise
  and a different count fails the invocation. A connection error and a subscribe error
  each fail a pending invocation at once, whatever the count is at the later close.
\<close>

theorem mqtt_completion:
  "(closes_after_timer E c (MqttAction_invoke E a c) evs \<longrightarrow>
      (promise (mqtt_run E c (MqttAction_invoke E a c) evs) = Resolved \<longleftrightarrow>
         (\<exists>pre post. evs = pre @ Close # post \<and> Close \<notin> set pre \<and>
            end_called (mqtt_run E c (MqttAction_invoke E a c) pre) \<and>
            promise (mqtt_run E c (MqttAction_invoke E a c) pre) = Pending \<and>
            numberOfReceivedMessages (self (mqtt_run E c (MqttAction_invoke E a c) pre)) =
              MqttAction.expectedNumberOfMessages
                (self (mqtt_run E c (MqttAction_invoke E a c) pre))))) \<and>
   (client_topic s \<noteq> None \<longrightarrow>
      timers (mqtt_step E c s Connect) = timers s @ [durationInSec (self s) * 1000]) \<and>
   (end_called (mqtt_step E c s ev) \<longleftrightarrow>
      end_called s \<or> (ev = TimerFired \<and> timers s \<noteq> [] \<and> client_topic s \<noteq> None)) \<and>
   promise (mqtt_step E c s (Message m)) = promise s \<and>
   (promise (MqttAction_invoke E a c) = Pending \<and>
    closes_after_timer E c (MqttAction_invoke E a c) evs' \<and>
    \<not> list_ex reports_error evs' \<and>
    \<not> end_called (mqtt_run E c (MqttAction_invoke E a c) evs') \<longrightarrow>
      promise (mqtt_run E c (MqttAction_invoke E a c) evs') = Pending) \<and>
   (end_called s \<longrightarrow>
      promise (mqtt_step E c s Close) =
        (if promise s = Pending \<and> client_topic s \<noteq> None
         then if numberOfReceivedMessages (self s) = MqttAction.expectedNumberOfMessages (self s)
              then Resolved else Rejected
         else promise s)) \<and>
   promise (mqtt_step E c s (ErrorEvent msg)) =
     (if promise s = Pending \<and> client_topic s \<noteq> None then Rejected else promise s) \<and>
   promise (mqtt_step E c s (SubscribeCallback (Some msg))) =
     (if promise s = Pending \<and> client_topic s \<noteq> None then Rejected else promise s)"
proof -
  let ?i = "MqttAction_invoke E a c"
  let ?P = "\<lambda>pre. promise (mqtt_run E c ?i pre) = Pending \<and>
         numberOfReceivedMessages (self (mqtt_run E c ?i pre)) =
           MqttAction.expectedNumberOfMessages (self (mqtt_run E c ?i pre))"
  have 1: "promise (mqtt_run E c ?i evs) = Resolved \<longleftrightarrow>
      (\<exists>pre post. evs = pre @ Close # post \<and> Close \<notin> set pre \<and>
         end_called (mqtt_run E c ?i pre) \<and> ?P pre)"
    if timely: "closes_after_timer E c ?i evs"
  proof (cases "promise ?i = Pending")
    case False
    then have "\<And>es. promise (mqtt_run E c ?i es) = Rejected"
      using promise_MqttAction_invoke [of E a c] by (auto simp add: mqtt_run_sticky)
    then show ?thesis by simp
  next
    case True
    then have ct: "client_topic ?i \<noteq> None"
      using promise_MqttAction_invoke [of E a c] by auto
    have "(\<exists>pre post. evs = pre @ Close # post \<and> ?P pre) \<longleftrightarrow>
      (\<exists>pre post. evs = pre @ Close # post \<and> Close \<notin> set pre \<and>
         end_called (mqtt_run E c ?i pre) \<and> ?P pre)" (is "?L \<longleftrightarrow> ?R")
    proof
      assume ?L
      then obtain pre post where d: "evs = pre @ Close # post" "?P pre" by blast
      from d(2) ct have "Close \<notin> set pre"
        using mqtt_run_Close_settles [of ?i pre E c] by blast
      moreover from timely d(1) have "end_called (mqtt_run E c ?i pre)"
        by (simp add: closes_after_timer_Close)
      ultimately show ?R using d by blast
    next
      assume ?R
      then show ?L by blast
    qed
    with mqtt_run_Resolved [OF True ct, of E c evs] show ?thesis by simp
  qed
  have 2: "timers (mqtt_step E c s Connect) = timers s @ [durationInSec (self s) * 1000]"
    if "client_topic s \<noteq> None"
    using that by (auto simp add: mqtt_step_def on_connect_def)
  have 3: "promise (mqtt_step E c s (Message m)) = promise s"
    by (simp add: promise_mqtt_step split: option.splits)
  have 4: "promise (mqtt_run E c ?i evs') = Pending"
    if "promise ?i = Pending" "closes_after_timer E c ?i evs'" "\<not> list_ex reports_error evs'"
      "\<not> end_called (mqtt_run E c ?i evs')"
  proof -
    from that(2,4) have "Close \<notin> set evs'"
      using closes_after_timer_end_called [of E c ?i evs'] by blast
    with that(1,3) show ?thesis by (simp add: mqtt_run_stays_Pending)
  qed
  have 5: "promise (mqtt_step E c s Close) =
     (if promise s = Pending \<and> client_topic s \<noteq> None
      then if numberOfReceivedMessages (self s) = MqttAction.expectedNumberOfMessages (self s)
           then Resolved else Rejected
      else promise s)"
    by (cases "promise s") (auto simp add: promise_mqtt_step split: option.splits)
  have 6: "promise (mqtt_step E c s (ErrorEvent msg)) =
     (if promise s = Pending \<and> client_topic s \<noteq> None then Rejected else promise s)"
    by (cases "promise s") (auto simp add: promise_mqtt_step split: option.splits)
  have 7: "promise (mqtt_step E c s (SubscribeCallback (Some msg))) =
     (if promise s = Pending \<and> client_topic s \<noteq> None then Rejected else promise s)"
    by (cases "promise s") (auto simp add: promise_mqtt_step split: option.splits)
  from 1 2 3 4 5 6 7 end_called_mqtt_step [of E c s ev] show ?thesis by blast
qed

text \<open>
  The amended C1 at a run with one relevant message (one is expected): after the
  message the count is reached and the invocation is still pending; it succeeds at
  the close that follows the timer. With two messages expected the same run fails.
\<close>

theorem mqtt_completion_witness:
  "closes_after_timer demo_env Map.empty (MqttAction_invoke demo_env demo_mqtt Map.empty)
     demo_listen_trace \<and>
   promise (mqtt_run demo_env Map.empty (MqttAction_invoke demo_env demo_mqtt Map.empty)
     demo_listen_trace) = Resolved \<and>
   timers (mqtt_step demo_env Map.empty (MqttAction_invoke demo_env demo_mqtt Map.empty) Connect) =
     [2000] \<and>
   numberOfReceivedMessages
     (self (mqtt_run demo_env Map.empty (MqttAction_invoke demo_env demo_mqtt Map.empty)
        demo_early_trace)) = MqttAction.expectedNumberOfMessages demo_mqtt \<and>
   promise (mqtt_run demo_env Map.empty (MqttAction_invoke demo_env demo_mqtt Map.empty)
     demo_early_trace) = Pending \<and>
   promise (mqtt_step demo_env Map.empty
     (mqtt_run demo_env Map.empty
        (MqttAction_invoke demo_env (demo_mqtt\<lparr>MqttAction.expectedNumberOfMessages := 2\<rparr>) Map.empty)
        [Connect, SubscribeCallback None, Message (Text ''{}''), TimerFired]) Close) = Rejected"
proof -
  let ?i = "MqttAction_invoke demo_env demo_mqtt Map.empty"
  let ?pre = "[Connect, SubscribeCallback None, Message (Text ''{}''), TimerFired]"
  let ?t = "mqtt_run demo_env Map.empty
        (MqttAction_invoke demo_env (demo_mqtt\<lparr>MqttAction.expectedNumberOfMessages := 2\<rparr>) Map.empty)
        ?pre"
  have h: "closes_after_timer demo_env Map.empty ?i demo_listen_trace"
    "demo_listen_trace = ?pre @ Close # []"
    "Close \<notin> set ?pre"
    "end_called (mqtt_run demo_env Map.empty ?i ?pre)"
    "promise (mqtt_run demo_env Map.empty ?i ?pre) = Pending"
    "numberOfReceivedMessages (self (mqtt_run demo_env Map.empty ?i ?pre)) =
       MqttAction.expectedNumberOfMessages (self (mqtt_run demo_env Map.empty ?i ?pre))"
    by code_simp+
  have k: "client_topic ?i \<noteq> None" "timers ?i = []" "durationInSec (self ?i) = 2"
    "promise ?i = Pending"
    "closes_after_timer demo_env Map.empty ?i demo_early_trace"
    "\<not> list_ex reports_error demo_early_trace"
    "\<not> end_called (mqtt_run demo_env Map.empty ?i demo_early_trace)"
    "numberOfReceivedMessages (self (mqtt_run demo_env Map.empty ?i demo_early_trace)) =
       MqttAction.expectedNumberOfMessages demo_mqtt"
    by code_simp+
  have l: "end_called ?t" "promise ?t = Pending" "client_topic ?t \<noteq> None"
    "numberOfReceivedMessages (self ?t) \<noteq> MqttAction.expectedNumberOfMessages (self ?t)"
    by code_simp+
  note a = mqtt_completion [where E = demo_env and c = Map.empty and a = demo_mqtt
      and evs = demo_listen_trace and s = ?i and evs' = demo_early_trace]
  note b = mqtt_completion [where E = demo_env and c = Map.empty and s = ?t]
  from h(2-6) have "\<exists>pre post. demo_listen_trace = pre @ Close # post \<and> Close \<notin> set pre \<and>
      end_called (mqtt_run demo_env Map.empty ?i pre) \<and>
      promise (mqtt_run demo_env Map.empty ?i pre) = Pending \<and>
      numberOfReceivedMessages (self (mqtt_run demo_env Map.empty ?i pre)) =
        MqttAction.expectedNumberOfMessages (self (mqtt_run demo_env Map.empty ?i pre))"
    by blast
  with a b h(1) k l show ?thesis by simp
qed

text \<open>
  C1, as stated, fails: after a connection error the counter equals the expected
  count when the connection closes, and the invocation has failed all the same.
\<close>

theorem mqtt_error_before_close:
  "\<not> (promise (mqtt_run demo_env Map.empty (MqttAction_invoke demo_env demo_mqtt Map.empty)
                 demo_error_trace) = Resolved \<longleftrightarrow>
      numberOfReceivedMessages
        (self (mqtt_run demo_env Map.empty (MqttAction_invoke demo_env demo_mqtt Map.empty)
                 demo_error_trace)) =
      MqttAction.expectedNumberOfMessages
        (self (mqtt_run demo_env Map.empty (MqttAction_invoke demo_env demo_mqtt Map.empty)
                 demo_error_trace)))"
  by code_simp

lemma some_filter_True:
  "some_filter E c msg fs = Inr True \<longleftrightarrow>
     (\<exists>pre f post. fs = pre @ f # post \<and> list_all (filter_falsy E c msg) pre \<and>
        filter_truthy E c msg f)"
proof (induction fs)
  case Nil
  then show ?case by simp
next
  case (Cons g gs)
  show ?case
  proof (cases "filter_truthy E c msg g")
    case True
    then have "some_filter E c msg (g # gs) = Inr True"
      by (auto simp add: filter_truthy_def split: sum.splits)
    moreover from True have "g # gs = [] @ g # gs \<and> list_all (filter_falsy E c msg) [] \<and>
        filter_truthy E c msg g" by simp
    ultimately show ?thesis by blast
  next
    case nt: False
    show ?thesis
    proof (cases "filter_falsy E c msg g")
      case True
      then have step: "some_filter E c msg (g # gs) = some_filter E c msg gs"
        by (auto simp add: filter_falsy_def split: sum.splits)
      have "(\<exists>pre f post. g # gs = pre @ f # post \<and> list_all (filter_falsy E c msg) pre \<and>
                filter_truthy E c msg f) \<longleftrightarrow>
            (\<exists>pre f post. gs = pre @ f # post \<and> list_all (filter_falsy E c msg) pre \<and>
                filter_truthy E c msg f)" (is "?L \<longleftrightarrow> ?R")
      proof
        assume ?L
        then obtain pre f post where d: "g # gs = pre @ f # post"
          "list_all (filter_falsy E c msg) pre" "filter_truthy E c msg f" by blast
        with nt obtain pre' where "pre = g # pre'" by (cases pre) auto
        with d show ?R by auto
      next
        assume ?R
        then obtain pre f post where "gs = pre @ f # post"
          "list_all (filter_falsy E c msg) pre" "filter_truthy E c msg f" by blast
        with True have "g # gs = (g # pre) @ f # post \<and>
          list_all (filter_falsy E c msg) (g # pre) \<and> filter_truthy E c msg f" by simp
        then show ?L by blast
      qed
      with step Cons.IH show ?thesis by simp
    next
      case False
      with nt have "some_filter E c msg (g # gs) \<noteq> Inr True"
        by (auto simp add: filter_falsy_def filter_truthy_def split: sum.splits)
      moreover have "\<not> (\<exists>pre f post. g # gs = pre @ f # post \<and>
          list_all (filter_falsy E c msg) pre \<and> filter_truthy E c msg f)"
      proof
        assume "\<exists>pre f post. g # gs = pre @ f # post \<and>
          list_all (filter_falsy E c msg) pre \<and> filter_truthy E c msg f"
        then obtain pre f post where d: "g # gs = pre @ f # post"
          "list_all (filter_falsy E c msg) pre" "filter_truthy E c msg f" by blast
        with nt False show False by (cases pre) auto
      qed
      ultimately show ?thesis by simp
    qed
  qed
qed

lemma some_filter_none_truthy:
  "list_all (\<lambda>f. \<not> filter_truthy E c msg f) fs \<Longrightarrow> some_filter E c msg fs \<noteq> Inr True"
  by (induction fs) (auto simp add: filter_truthy_def split: sum.splits)

text \<open>
  C6 (as amended). A decoded message is relevant exactly when the action has no
  \<open>MqttAction.messageFilter\<close> at all, or when the filters, evaluated in order with \<open>msg\<close> bound
  to the decoded payload, reach a truthy filter after filters that all evaluated to
  a falsy value (none of them threw). With an empty filter list no message is
  relevant. A message for which no filter is truthy does not change the
  received-message counter.
\<close>

theorem relevance_rule:
  "(isMessageRelevant E mf c msg = Inr True \<longleftrightarrow>
      mf = None \<or>
      (\<exists>pre f post. mf = Some (pre @ f # post) \<and> list_all (filter_falsy E c msg) pre \<and>
         filter_truthy E c msg f)) \<and>
   isMessageRelevant E (Some []) c msg = Inr False \<and>
   (MqttAction.messageFilter (self s) = Some fs \<and> decode_message E (self s) m = Inr msgObj \<and>
    list_all (\<lambda>f. \<not> filter_truthy E c msgObj f) fs \<longrightarrow>
      numberOfReceivedMessages (self (mqtt_step E c s (Message m))) =
        numberOfReceivedMessages (self s))"
proof -
  have 1: "isMessageRelevant E mf c msg = Inr True \<longleftrightarrow>
      mf = None \<or>
      (\<exists>pre f post. mf = Some (pre @ f # post) \<and> list_all (filter_falsy E c msg) pre \<and>
         filter_truthy E c msg f)"
    by (cases mf) (simp_all add: isMessageRelevant_def some_filter_True)
  have 2: "isMessageRelevant E (Some []) c msg = Inr False"
    by (simp add: isMessageRelevant_def)
  have 3: "numberOfReceivedMessages (self (mqtt_step E c s (Message m))) =
        numberOfReceivedMessages (self s)"
    if "MqttAction.messageFilter (self s) = Some fs" "decode_message E (self s) m = Inr msgObj"
      "list_all (\<lambda>f. \<not> filter_truthy E c msgObj f) fs"
  proof -
    from that(3) have "some_filter E c msgObj fs \<noteq> Inr True"
      by (rule some_filter_none_truthy)
    with that(1,2) show ?thesis
      by (auto simp add: mqtt_step_def on_message_def isMessageRelevant_def
          split: option.splits sum.splits)
  qed
  from 1 2 3 show ?thesis by blast
qed

text \<open>
  C6, as stated, fails for a filter list that is configured but empty: no filter
  is configured, the specification's rule makes the message relevant, the code
  does not.
\<close>

theorem empty_filter_list_irrelevant:
  "\<not> (isMessageRelevant demo_env (Some []) Map.empty (JObj []) = Inr True \<longleftrightarrow>
      spec_relevant demo_env (Some []) Map.empty (JObj []))"
  by (simp add: isMessageRelevant_def spec_relevant_def configured_filters_def)

theorem relevance_rule_witness:
  "isMessageRelevant demo_env (Some [''false'', ''msg'']) Map.empty (JObj []) = Inr True \<and>
   numberOfReceivedMessages
     (self (mqtt_step demo_env Map.empty
        (MqttAction_invoke demo_env (demo_mqtt\<lparr>MqttAction.messageFilter := Some [''false'', ''nope'']\<rparr>) Map.empty)
        (Message (Text ''{}'')))) = 0"
proof -
  let ?a = "demo_mqtt\<lparr>MqttAction.messageFilter := Some [''false'', ''nope'']\<rparr>"
  let ?s = "MqttAction_invoke demo_env ?a Map.empty"
  have h: "MqttAction.messageFilter (self ?s) = Some [''false'', ''nope'']"
    "decode_message demo_env (self ?s) (Text ''{}'') = Inr (JObj [])"
    "list_all (\<lambda>f. \<not> filter_truthy demo_env Map.empty (JObj []) f) [''false'', ''nope'']"
    "numberOfReceivedMessages (self ?s) = 0"
    by code_simp+
  have e: "[''false'', ''msg''] = [''false''] @ ''msg'' # []"
    "list_all (filter_falsy demo_env Map.empty (JObj [])) [''false'']"
    "filter_truthy demo_env Map.empty (JObj []) ''msg''"
    by code_simp+
  note r = relevance_rule [where E = demo_env and mf = "Some [''false'', ''msg'']" and c = Map.empty
      and msg = "JObj []" and s = ?s and fs = "[''false'', ''nope'']" and m = "Text ''{}''"
      and msgObj = "JObj []"]
  have "\<exists>pre f post. Some [''false'', ''msg''] = Some (pre @ f # post) \<and>
      list_all (filter_falsy demo_env Map.empty (JObj [])) pre \<and>
      filter_truthy demo_env Map.empty (JObj []) f"
    using e by (intro exI [of _ "[''false'']"] exI [of _ "''msg''"] exI [of _ "[]"]) simp
  with r h show ?thesis by simp
qed

section \<open>Properties of the MQTT publish action\<close>

lemma promise_pub_step: "promise (pub_step E s ev) = promise s"
  by (simp add: pub_step_def pub_on_connect_def pub_on_published_def pub_on_error_def Let_def
      split: publish_event.splits sum.splits option.splits)

lemma promise_pub_run: "promise (pub_run E s evs) = promise s"
  unfolding pub_run_def
  by (induction evs arbitrary: s) (simp_all add: promise_pub_step)

lemma pub_run_no_client: "\<not> has_client s \<Longrightarrow> pub_run E s evs = s"
  unfolding pub_run_def
  by (induction evs arbitrary: s) (simp_all add: pub_step_def)

text \<open>
  C5 (as amended). When \<open>Mqtt.connect\<close> returns a client, \<open>invoke\<close> resolves the
  promise at once, before any event, and the promise stays resolved whatever events
  follow: no event changes the promise, and a connection error and a publish error
  are each logged as an error. When \<open>Mqtt.connect\<close> throws, the promise is rejected
  and stays so, and nothing is logged.
\<close>

theorem publish_never_rejects:
  "(connect E (MqttPublishAction.url a) = Inr client \<longrightarrow>
      promise (MqttPublishAction_invoke E a) = Resolved \<and>
      has_client (MqttPublishAction_invoke E a) \<and>
      promise (pub_run E (MqttPublishAction_invoke E a) evs) = Resolved) \<and>
   promise (pub_step E s ev) = promise s \<and>
   (has_client s \<longrightarrow>
      log (pub_step E s (PubError msg)) = log s @ [LogError ''Error during connection'']) \<and>
   (has_client s \<and> 0 < publishing s \<longrightarrow>
      log (pub_step E s (PublishCallback (Some msg))) =
        log s @ [LogError ''Error while publishing'']) \<and>
   (connect E (MqttPublishAction.url a) = Inl e \<longrightarrow>
      promise (pub_run E (MqttPublishAction_invoke E a) evs) = Rejected \<and>
      log (pub_run E (MqttPublishAction_invoke E a) evs) = [])"
proof -
  let ?i = "MqttPublishAction_invoke E a"
  have 1: "promise ?i = Resolved \<and> has_client ?i \<and> promise (pub_run E ?i evs) = Resolved"
    if "connect E (MqttPublishAction.url a) = Inr client"
    using that by (simp add: promise_pub_run) (simp add: MqttPublishAction_invoke_def)
  have 2: "log (pub_step E s (PubError msg)) = log s @ [LogError ''Error during connection'']"
    if "has_client s"
    using that by (simp add: pub_step_def pub_on_error_def)
  have 3: "log (pub_step E s (PublishCallback (Some msg))) =
        log s @ [LogError ''Error while publishing'']"
    if "has_client s \<and> 0 < publishing s"
    using that by (simp add: pub_step_def pub_on_published_def)
  have 4: "promise (pub_run E ?i evs) = Rejected \<and> log (pub_run E ?i evs) = []"
    if "connect E (MqttPublishAction.url a) = Inl e"
  proof -
    from that have n: "\<not> has_client ?i" "promise ?i = Rejected" "log ?i = []"
      by (simp_all add: MqttPublishAction_invoke_def)
    from n(1) have "pub_run E ?i evs = ?i"
      by (rule pub_run_no_client)
    with n show ?thesis by simp
  qed
  from 1 2 3 4 promise_pub_step [of E s ev] show ?thesis by blast
qed

text \<open>
  The amended C5 at a run with a connection error and a failed publish, and at an
  address without protocol.
\<close>

theorem publish_never_rejects_witness:
  "promise (pub_run demo_env (MqttPublishAction_invoke demo_env demo_publish)
     [PubConnect, PubError ''ECONNRESET'', PublishCallback (Some ''not connected'')]) = Resolved \<and>
   log (pub_run demo_env (MqttPublishAction_invoke demo_env demo_publish)
     [PubConnect, PubError ''ECONNRESET'', PublishCallback (Some ''not connected'')]) =
     [LogDebug ''MQTT connection successfully opened'', LogError ''Error during connection'',
      LogError ''Error while publishing''] \<and>
   promise (pub_run demo_env
     (MqttPublishAction_invoke demo_env (demo_publish\<lparr>MqttPublishAction.url := ''broker''\<rparr>))
     [PubConnect]) = Rejected \<and>
   log (pub_run demo_env
     (MqttPublishAction_invoke demo_env (demo_publish\<lparr>MqttPublishAction.url := ''broker''\<rparr>))
     [PubConnect]) = []"
proof -
  let ?i = "MqttPublishAction_invoke demo_env demo_publish"
  let ?s1 = "pub_run demo_env ?i [PubConnect]"
  let ?s2 = "pub_step demo_env ?s1 (PubError ''ECONNRESET'')"
  let ?evs = "[PubConnect, PubError ''ECONNRESET'', PublishCallback (Some ''not connected'')]"
  let ?b = "demo_publish\<lparr>MqttPublishAction.url := ''broker''\<rparr>"
  have h: "connect demo_env (MqttPublishAction.url demo_publish) = Inr ()"
    "connect demo_env (MqttPublishAction.url ?b) = Inl (Thrown ''Missing protocol'')"
    "has_client ?s1" "has_client ?s2 \<and> 0 < publishing ?s2"
    "log ?s1 = [LogDebug ''MQTT connection successfully opened'']"
    "pub_run demo_env ?i ?evs = pub_step demo_env ?s2 (PublishCallback (Some ''not connected''))"
    by code_simp+
  note a = publish_never_rejects [where E = demo_env and a = demo_publish and client = "()"
      and evs = ?evs and s = ?s1 and msg = "''ECONNRESET''"]
  note b = publish_never_rejects [where E = demo_env and s = ?s2 and msg = "''not connected''"]
  note c = publish_never_rejects [where E = demo_env and a = ?b and evs = "[PubConnect]"
      and e = "Thrown ''Missing protocol''"]
  from a b c h show ?thesis by simp
qed

text \<open>
  C5, as stated, fails: at an address that \<open>Mqtt.connect\<close> refuses, the exception
  leaves the promise executor, the promise is rejected, and nothing is logged.
\<close>

theorem publish_connect_throws:
  "promise (pub_run demo_env
     (MqttPublishAction_invoke demo_env (demo_publish\<lparr>MqttPublishAction.url := ''broker''\<rparr>)) []) =
     Rejected \<and>
   log (pub_run demo_env
     (MqttPublishAction_invoke demo_env (demo_publish\<lparr>MqttPublishAction.url := ''broker''\<rparr>)) []) = []"
  by code_simp

section \<open>Properties of the WebSocket action\<close>

lemma sent_ws_on_message: "sent (ws_on_message E c d s) = sent s"
  by (simp add: ws_on_message_def split: sum.splits)

lemma sent_ws_on_close: "sent (ws_on_close E c code s) = sent s"
  by (simp add: ws_on_close_def invokeAsync_def Let_def split: sum.splits)

lemma sent_ws_on_error: "sent (ws_on_error err s) = sent s"
  by (simp add: ws_on_error_def)

lemma sent_ws_on_open:
  "sent (ws_on_open E s) =
     (case (WebSocketAction.data (self s), wsInstance (self s)) of
        (Some d, Some w) \<Rightarrow>
          if truthy d \<and> reconnected (self s) = 0
          then sent s @ [(w, JSON_stringify E d)] else sent s
      | _ \<Rightarrow> sent s)"
  by (simp add: ws_on_open_def Let_def split: option.splits)

lemma sent_ws_step:
  "sent (ws_step E c s ev) =
     (case ev of
        OpenEvent i \<Rightarrow> if i < sockets s then sent (ws_on_open E s) else sent s
      | _ \<Rightarrow> sent s)"
  by (cases ev)
     (simp_all add: ws_step_def sent_ws_on_message sent_ws_on_close sent_ws_on_error)

lemma ws_inv_on_open: "ws_inv s \<Longrightarrow> ws_inv (ws_on_open E s)"
  by (simp add: ws_inv_def ws_on_open_def Let_def split: option.splits)

lemma ws_inv_on_message: "ws_inv s \<Longrightarrow> ws_inv (ws_on_message E c d s)"
  by (simp add: ws_inv_def ws_on_message_def split: sum.splits)

lemma ws_inv_on_close: "ws_inv s \<Longrightarrow> ws_inv (ws_on_close E c code s)"
  by (simp add: ws_inv_def ws_on_close_def invokeAsync_def Let_def split: sum.splits)

lemma ws_inv_on_error: "ws_inv s \<Longrightarrow> ws_inv (ws_on_error err s)"
  by (simp add: ws_inv_def ws_on_error_def)

lemma ws_inv_step: "ws_inv s \<Longrightarrow> ws_inv (ws_step E c s ev)"
  by (cases ev)
     (simp_all add: ws_step_def ws_inv_on_open ws_inv_on_message ws_inv_on_close ws_inv_on_error)

lemma length_sent_ws_step:
  "ws_inv s \<Longrightarrow> length (sent (ws_step E c s ev)) \<le> length (sent s) + (if ev = OpenEvent 0 then 1 else 0)"
  by (cases ev) (auto simp add: sent_ws_step sent_ws_on_open ws_inv_def split: option.splits)

lemma length_sent_ws_run:
  "ws_inv s \<Longrightarrow> length (sent (ws_run E c s evs)) \<le> length (sent s) + count_list evs (OpenEvent 0)"
  unfolding ws_run_def
proof (induction evs arbitrary: s)
  case Nil
  then show ?case by simp
next
  case (Cons ev evs)
  from Cons.IH [OF ws_inv_step [OF Cons.prems], of E c ev] length_sent_ws_step [OF Cons.prems, of E c ev]
  show ?case by auto
qed

lemma ws_inv_invoke: "ws_inv (WebSocketAction_invoke E a c)" "sent (WebSocketAction_invoke E a c) = []"
  by (simp_all add: ws_inv_def WebSocketAction_invoke_def invokeAsync_def Let_def
      split: sum.splits)

lemma ws_close_1006:
  assumes "i < sockets s" and "reconnected (self s) \<le> MAX_RECONNECTIONS"
    and "injectEvalAndVarsToString E (WebSocketAction.url (self s)) c = Inr u"
    and "injectEvalAndVarsToMap E (WebSocketAction.headers (self s)) c = Inr q"
    and "WebSocket_new E (u @ ''?'' @ stringify E q) = Inr socket"
  shows "ws_step E c s (CloseEvent i 1006) =
           s\<lparr>log := log s @ [LogDebug ''reconnecting...''],
             self := (self s)\<lparr>reconnected := reconnected (self s) + 1, wsInstance := Some (sockets s)\<rparr>,
             sockets := sockets s + 1\<rparr>"
  using assms by (simp add: ws_step_def ws_on_close_def invokeAsync_def Let_def)

lemma ws_close_settles:
  assumes "i < sockets s" and "code \<noteq> 1006 \<or> MAX_RECONNECTIONS < reconnected (self s)"
  shows "ws_step E c s (CloseEvent i code) =
           (if int (length (receivedMessages (self s))) \<noteq>
               WebSocketAction.expectedNumberOfMessages (self s)
            then s\<lparr>log := log s @ [LogDebug ''Successfully closed WS connection'',
                                     LogError ''Unexpected number of messages retrieved''],
                   promise := reject (promise s)\<rparr>
            else s\<lparr>log := log s @ [LogDebug ''Successfully closed WS connection''],
                   promise := resolve (promise s)\<rparr>)"
  using assms by (auto simp add: ws_step_def ws_on_close_def Let_def)

lemma WebSocketAction_invoke_fields:
  "reconnected (self (WebSocketAction_invoke E a c)) = reconnected a"
  "receivedMessages (self (WebSocketAction_invoke E a c)) = receivedMessages a"
  by (simp_all add: WebSocketAction_invoke_def invokeAsync_def Let_def split: sum.splits)

text \<open>
  C4 (as amended). The reconnections are counted in the Action object: an
  invocation starts from the \<open>reconnected\<close> the object carries. When a socket of the
  invocation closes with code 1006 while that counter is below 3 (and the URL and
  the query parameters resolve and the socket can be created), the close handler
  reconnects exactly once: \<open>reconnected\<close> grows by one, one new socket is created
  and becomes \<open>wsInstance\<close>, the promise is not settled and nothing is sent. When
  the counter is above 3, a close with code 1006 creates no socket and settles the
  invocation by the number of received messages. The payload is sent on an open
  exactly while the counter is 0: such an open sends the configured payload on the
  current socket, and an open after a reconnect sends nothing. Over a whole
  invocation the payload is sent at most as often as the first socket opens.
\<close>

theorem ws_reconnect_and_payload:
  "(i < sockets s \<and> reconnected (self s) < 3 \<and>
    injectEvalAndVarsToString E (WebSocketAction.url (self s)) c = Inr u \<and>
    injectEvalAndVarsToMap E (WebSocketAction.headers (self s)) c = Inr q \<and>
    WebSocket_new E (u @ ''?'' @ stringify E q) = Inr socket \<longrightarrow>
      reconnected (self (ws_step E c s (CloseEvent i 1006))) = reconnected (self s) + 1 \<and>
      sockets (ws_step E c s (CloseEvent i 1006)) = sockets s + 1 \<and>
      wsInstance (self (ws_step E c s (CloseEvent i 1006))) = Some (sockets s) \<and>
      promise (ws_step E c s (CloseEvent i 1006)) = promise s \<and>
      sent (ws_step E c s (CloseEvent i 1006)) = sent s) \<and>
   reconnected (self (WebSocketAction_invoke E a c)) = reconnected a \<and>
   (i < sockets s \<and> 3 < reconnected (self s) \<longrightarrow>
      reconnected (self (ws_step E c s (CloseEvent i 1006))) = reconnected (self s) \<and>
      sockets (ws_step E c s (CloseEvent i 1006)) = sockets s \<and>
      promise (ws_step E c s (CloseEvent i 1006)) =
        (if int (length (receivedMessages (self s))) =
            WebSocketAction.expectedNumberOfMessages (self s)
         then resolve (promise s) else reject (promise s))) \<and>
   length (sent (ws_run E c (WebSocketAction_invoke E a c) evs)) \<le> count_list evs (OpenEvent 0) \<and>
   (0 < reconnected (self s) \<longrightarrow> sent (ws_step E c s (OpenEvent j)) = sent s) \<and>
   (j < sockets s \<and> reconnected (self s) = 0 \<and> WebSocketAction.data (self s) = Some d \<and> truthy d \<and>
    wsInstance (self s) = Some k \<longrightarrow>
      sent (ws_step E c s (OpenEvent j)) = sent s @ [(k, JSON_stringify E d)])"
proof -
  have 1: "reconnected (self (ws_step E c s (CloseEvent i 1006))) = reconnected (self s) + 1 \<and>
      sockets (ws_step E c s (CloseEvent i 1006)) = sockets s + 1 \<and>
      wsInstance (self (ws_step E c s (CloseEvent i 1006))) = Some (sockets s) \<and>
      promise (ws_step E c s (CloseEvent i 1006)) = promise s \<and>
      sent (ws_step E c s (CloseEvent i 1006)) = sent s"
    if "i < sockets s" "reconnected (self s) < 3"
      "injectEvalAndVarsToString E (WebSocketAction.url (self s)) c = Inr u"
      "injectEvalAndVarsToMap E (WebSocketAction.headers (self s)) c = Inr q"
      "WebSocket_new E (u @ ''?'' @ stringify E q) = Inr socket"
  proof -
    from that(2) have "reconnected (self s) \<le> MAX_RECONNECTIONS"
      by (simp add: MAX_RECONNECTIONS_def)
    from ws_close_1006 [OF that(1) this that(3,4,5)] show ?thesis by simp
  qed
  have 2: "length (sent (ws_run E c (WebSocketAction_invoke E a c) evs)) \<le> count_list evs (OpenEvent 0)"
    using length_sent_ws_run [OF ws_inv_invoke(1), of E c E a c evs] by (simp add: ws_inv_invoke(2))
  have 3: "sent (ws_step E c s (OpenEvent j)) = sent s" if "0 < reconnected (self s)"
    using that by (simp add: sent_ws_step sent_ws_on_open split: option.splits)
  have 4: "sent (ws_step E c s (OpenEvent j)) = sent s @ [(k, JSON_stringify E d)]"
    if "j < sockets s" "reconnected (self s) = 0" "WebSocketAction.data (self s) = Some d" "truthy d"
      "wsInstance (self s) = Some k"
    using that by (simp add: sent_ws_step sent_ws_on_open)
  have 5: "reconnected (self (ws_step E c s (CloseEvent i 1006))) = reconnected (self s) \<and>
      sockets (ws_step E c s (CloseEvent i 1006)) = sockets s \<and>
      promise (ws_step E c s (CloseEvent i 1006)) =
        (if int (length (receivedMessages (self s))) =
            WebSocketAction.expectedNumberOfMessages (self s)
         then resolve (promise s) else reject (promise s))"
    if "i < sockets s" "3 < reconnected (self s)"
  proof -
    from that(2) have "(1006::int) \<noteq> 1006 \<or> MAX_RECONNECTIONS < reconnected (self s)"
      by (simp add: MAX_RECONNECTIONS_def)
    from ws_close_settles [OF that(1) this] show ?thesis by simp
  qed
  from 1 2 3 4 5 WebSocketAction_invoke_fields(1) [of E a c] show ?thesis by blast
qed

text \<open>
  The amended C4 at an invocation whose first socket opens, closes with code 1006
  and is replaced, and at an Action object that has been reconnected four times.
\<close>

theorem ws_reconnect_and_payload_witness:
  "reconnected (self (ws_step demo_env Map.empty (WebSocketAction_invoke demo_env demo_ws Map.empty)
      (CloseEvent 0 1006))) = 1 \<and>
   sockets (ws_step demo_env Map.empty (WebSocketAction_invoke demo_env demo_ws Map.empty)
      (CloseEvent 0 1006)) = 2 \<and>
   length (sent (ws_run demo_env Map.empty (WebSocketAction_invoke demo_env demo_ws Map.empty)
      demo_ws_trace)) \<le> 1 \<and>
   sent (ws_step demo_env Map.empty
      (ws_run demo_env Map.empty (WebSocketAction_invoke demo_env demo_ws Map.empty)
         [OpenEvent 0, CloseEvent 0 1006]) (OpenEvent 1)) =
   sent (ws_run demo_env Map.empty (WebSocketAction_invoke demo_env demo_ws Map.empty)
         [OpenEvent 0, CloseEvent 0 1006]) \<and>
   sent (ws_step demo_env Map.empty (WebSocketAction_invoke demo_env demo_ws Map.empty)
      (OpenEvent 0)) = [(0, ''json'')] \<and>
   sockets (ws_step demo_env Map.empty
      (WebSocketAction_invoke demo_env (demo_ws\<lparr>reconnected := 4\<rparr>) Map.empty)
      (CloseEvent 0 1006)) = 1 \<and>
   promise (ws_step demo_env Map.empty
      (WebSocketAction_invoke demo_env (demo_ws\<lparr>reconnected := 4\<rparr>) Map.empty)
      (CloseEvent 0 1006)) = Rejected"
proof -
  let ?s = "WebSocketAction_invoke demo_env demo_ws Map.empty"
  let ?t = "ws_run demo_env Map.empty ?s [OpenEvent 0, CloseEvent 0 1006]"
  let ?o = "WebSocketAction_invoke demo_env (demo_ws\<lparr>reconnected := 4\<rparr>) Map.empty"
  have h: "0 < sockets ?s" "reconnected (self ?s) < 3" "reconnected (self ?s) = 0" "sockets ?s = 1"
    "injectEvalAndVarsToString demo_env (WebSocketAction.url (self ?s)) Map.empty = Inr ''ws://svc''"
    "injectEvalAndVarsToMap demo_env (WebSocketAction.headers (self ?s)) Map.empty = Inr []"
    "WebSocket_new demo_env (''ws://svc'' @ ''?'' @ stringify demo_env []) = Inr ()"
    by code_simp+
  have k: "0 < reconnected (self ?t)" "count_list demo_ws_trace (OpenEvent 0) = 1"
    "WebSocketAction.data (self ?s) = Some (JObj [])" "truthy (JObj [])"
    "wsInstance (self ?s) = Some 0" "sent ?s = []" "JSON_stringify demo_env (JObj []) = ''json''"
    by code_simp+
  have l: "0 < sockets ?o" "sockets ?o = 1" "3 < reconnected (self ?o)" "promise ?o = Pending"
    "int (length (receivedMessages (self ?o))) \<noteq> WebSocketAction.expectedNumberOfMessages (self ?o)"
    by code_simp+
  note a = ws_reconnect_and_payload [where E = demo_env and c = Map.empty and s = ?s and i = 0
      and u = "''ws://svc''" and q = "[]" and socket = "()" and a = demo_ws and evs = demo_ws_trace
      and j = 0 and d = "JObj []" and k = 0]
  note b = ws_reconnect_and_payload [where E = demo_env and c = Map.empty and s = ?t and j = 1]
  note c = ws_reconnect_and_payload [where E = demo_env and c = Map.empty and s = ?o and i = 0]
  from a b c h k l show ?thesis by simp
qed

text \<open>
  C4, as stated, fails. When the first connection closes with code 1006 before it
  has opened, the first open of the invocation is that of the second socket: it
  sends nothing, although a payload is configured, and the invocation succeeds.
  And on an Action object that earlier invocations have reconnected four times, a
  1006 close does not reconnect, although this invocation has used no attempt.
\<close>

theorem ws_payload_not_sent_after_early_close:
  "WebSocketAction.data demo_ws = Some (JObj []) \<and> truthy (JObj []) \<and>
   sent (ws_run demo_env Map.empty (WebSocketAction_invoke demo_env demo_ws Map.empty)
      demo_ws_early_close_trace) = [] \<and>
   promise (ws_run demo_env Map.empty (WebSocketAction_invoke demo_env demo_ws Map.empty)
      demo_ws_early_close_trace) = Resolved \<and>
   sockets (WebSocketAction_invoke demo_env (demo_ws\<lparr>reconnected := 4\<rparr>) Map.empty) = 1 \<and>
   sockets (ws_step demo_env Map.empty
      (WebSocketAction_invoke demo_env (demo_ws\<lparr>reconnected := 4\<rparr>) Map.empty)
      (CloseEvent 0 1006)) = 1 \<and>
   promise (ws_step demo_env Map.empty
      (WebSocketAction_invoke demo_env (demo_ws\<lparr>reconnected := 4\<rparr>) Map.empty)
      (CloseEvent 0 1006)) = Rejected"
  by code_simp

section \<open>Properties of the REST action\<close>

lemma reject_cases: "reject p = Rejected \<or> reject p = Resolved \<and> p = Resolved"
  by (cases p) simp_all

lemma reject_unresolved: "p \<noteq> Resolved \<Longrightarrow> reject p = Rejected"
  by (cases p) simp_all

lemma reject_reject: "reject (reject p) = reject p"
  by (cases p) simp_all

subsection \<open>What the steps of a REST invocation leave unchanged\<close>

lemma validate_head_each_frame:
  "self (validate_head_each E h vs s) = self s \<and> cache (validate_head_each E h vs s) = cache s \<and>
   requests (validate_head_each E h vs s) = requests s"
  by (induction vs arbitrary: s) (simp_all split: sum.splits)

lemma validateHeaders_frame:
  "self (validateHeaders E h s) = self s" "cache (validateHeaders E h s) = cache s"
  "requests (validateHeaders E h s) = requests s"
  by (simp_all add: validateHeaders_def validate_head_each_frame)

lemma validate_body_each_frame:
  "self (snd (validate_body_each E r vs s)) = self s \<and>
   cache (snd (validate_body_each E r vs s)) = cache s \<and>
   requests (snd (validate_body_each E r vs s)) = requests s"
  by (induction vs arbitrary: s) (simp_all split: sum.splits)

lemma validateBody_frame:
  "self (snd (validateBody E r s)) = self s" "cache (snd (validateBody E r s)) = cache s"
  "requests (snd (validateBody E r s)) = requests s"
  by (simp_all add: validateBody_def validate_body_each_frame)

lemma update_pairs_log:
  "fst (update_pairs E r h ps (c, lg)) = fst (update_pairs E r h ps (c, lg')) \<and>
   fst (snd (update_pairs E r h ps (c, lg))) = fst (snd (update_pairs E r h ps (c, lg')))"
proof (induction ps arbitrary: c lg lg')
  case Nil
  then show ?case by simp
next
  case (Cons p ps)
  obtain k v where p: "p = (k, v)" by (cases p)
  show ?case
    unfolding p update_pairs.simps
    using Cons.IH by (auto split: sum.splits)
qed

lemma updateScenarioCache_self: "self (snd (updateScenarioCache E r h s)) = self s"
  "requests (snd (updateScenarioCache E r h s)) = requests s"
  by (simp_all add: updateScenarioCache_def split: option.splits prod.splits)

lemma updateScenarioCache_fst:
  "fst (updateScenarioCache E r h s) =
     (case variables (self s) of None \<Rightarrow> None
      | Some vs \<Rightarrow> fst (update_pairs E r h vs (cache s, log s)))"
  by (simp add: updateScenarioCache_def split: option.splits prod.splits)

lemma updateScenarioCache_cache:
  "cache (snd (updateScenarioCache E r h s)) =
     (case variables (self s) of None \<Rightarrow> cache s
      | Some vs \<Rightarrow> fst (snd (update_pairs E r h vs (cache s, log s))))"
  by (simp add: updateScenarioCache_def split: option.splits prod.splits)

lemma updateScenarioCache_sim:
  assumes "sim s t"
  shows "fst (updateScenarioCache E r h s) = fst (updateScenarioCache E r h t)"
    and "sim (snd (updateScenarioCache E r h s)) (snd (updateScenarioCache E r h t))"
proof -
  from assms have c: "cache s = cache t" "variables (self s) = variables (self t)"
    by (simp_all add: sim_def)
  have u: "fst (update_pairs E r h vs (cache t, log s)) = fst (update_pairs E r h vs (cache t, log t))"
    "fst (snd (update_pairs E r h vs (cache t, log s))) = fst (snd (update_pairs E r h vs (cache t, log t)))"
    for vs
    using update_pairs_log [of E r h vs "cache t" "log s" "log t"] by simp_all
  show "fst (updateScenarioCache E r h s) = fst (updateScenarioCache E r h t)"
    by (simp add: updateScenarioCache_fst c u split: option.splits)
  have "cache (snd (updateScenarioCache E r h s)) = cache (snd (updateScenarioCache E r h t))"
    by (simp add: updateScenarioCache_cache c u split: option.splits)
  with assms show "sim (snd (updateScenarioCache E r h s)) (snd (updateScenarioCache E r h t))"
    by (simp add: sim_def updateScenarioCache_self)
qed

lemma sim_frame:
  assumes "sim s t" and "self s' = self s" "cache s' = cache s" "requests s' = requests s"
    and "self t' = self t" "cache t' = cache t" "requests t' = requests t"
  shows "sim s' t'"
  using assms by (simp add: sim_def)

lemma try_validateBody_frame:
  "self (try_validateBody E p s) = self s" "cache (try_validateBody E p s) = cache s"
  "requests (try_validateBody E p s) = requests s"
  using validateBody_frame [of E p s]
  by (auto simp add: try_validateBody_def split: prod.splits option.splits exn.splits)

lemma on_body_sim:
  assumes "sim s t"
  shows "fst (on_body E r b s) = fst (on_body E r b t)"
    and "sim (snd (on_body E r b s)) (snd (on_body E r b t))"
proof -
  let ?a = "\<lambda>s::rest_invocation. s\<lparr>diagram := diagram s @
                     [SuccessfulResponseArrow (serviceName (self s)) (statusCode r)]\<rparr>"
  have v: "sim (try_validateBody E p (?a s)) (try_validateBody E p (?a t))" for p
    by (rule sim_frame [OF assms]) (simp_all add: try_validateBody_frame)
  show "fst (on_body E r b s) = fst (on_body E r b t)"
    using updateScenarioCache_sim(1) [OF v] by (simp add: on_body_def split: sum.splits)
  show "sim (snd (on_body E r b s)) (snd (on_body E r b t))"
    using updateScenarioCache_sim(2) [OF v] assms by (simp add: on_body_def split: sum.splits)
qed

lemma sim_diagram_promise:
  "sim s t \<Longrightarrow> sim (s\<lparr>diagram := d, promise := p\<rparr>) (t\<lparr>diagram := d', promise := p'\<rparr>)"
  "sim s t \<Longrightarrow> sim (s\<lparr>diagram := d\<rparr>) (t\<lparr>diagram := d'\<rparr>)"
  "sim s t \<Longrightarrow> sim (s\<lparr>promise := p\<rparr>) (t\<lparr>promise := p'\<rparr>)"
  "sim s t \<Longrightarrow> sim (s\<lparr>log := l\<rparr>) (t\<lparr>log := l'\<rparr>)"
  by (simp_all add: sim_def)

lemma on_expected_status_sim:
  assumes "sim s t"
  shows "fst (on_expected_status E r s) = fst (on_expected_status E r t)"
    and "sim (snd (on_expected_status E r s)) (snd (on_expected_status E r t))"
proof -
  let ?h = "headers_value (Response.headers r)"
  let ?s1 = "validateHeaders E ?h (s\<lparr>log := log s @ [LogDebug ''Response'']\<rparr>)"
  let ?t1 = "validateHeaders E ?h (t\<lparr>log := log t @ [LogDebug ''Response'']\<rparr>)"
  have s1: "sim ?s1 ?t1"
    by (rule sim_frame [OF assms]) (simp_all add: validateHeaders_frame)
  obtain x s2 where us: "updateScenarioCache E JUndefined ?h ?s1 = (x, s2)"
    by (cases "updateScenarioCache E JUndefined ?h ?s1")
  obtain y t2 where ut: "updateScenarioCache E JUndefined ?h ?t1 = (y, t2)"
    by (cases "updateScenarioCache E JUndefined ?h ?t1")
  from updateScenarioCache_sim [OF s1, of E JUndefined ?h] us ut
  have xy: "y = x" and s2: "sim s2 t2" by simp_all
  let ?bs = "case Response.body r of
               None \<Rightarrow> (None, s2\<lparr>diagram := diagram s2 @
                             [SuccessfulResponse (serviceName (self s2)) (statusCode r)]\<rparr>)
             | Some b \<Rightarrow> on_body E r b s2"
  let ?bt = "case Response.body r of
               None \<Rightarrow> (None, t2\<lparr>diagram := diagram t2 @
                             [SuccessfulResponse (serviceName (self t2)) (statusCode r)]\<rparr>)
             | Some b \<Rightarrow> on_body E r b t2"
  have b: "fst ?bs = fst ?bt" "sim (snd ?bs) (snd ?bt)"
    using on_body_sim [OF s2] s2 by (simp_all add: sim_diagram_promise split: option.splits)
  have es: "on_expected_status E r s =
      (case x of Some e \<Rightarrow> (Some e, s2)
       | None \<Rightarrow> (case ?bs of (Some e, s5) \<Rightarrow> (Some e, s5)
                   | (None, s5) \<Rightarrow> (None, s5\<lparr>promise := resolve (promise s5)\<rparr>)))"
    using us by (simp add: on_expected_status_def Let_def split: option.splits)
  have et: "on_expected_status E r t =
      (case x of Some e \<Rightarrow> (Some e, t2)
       | None \<Rightarrow> (case ?bt of (Some e, s5) \<Rightarrow> (Some e, s5)
                   | (None, s5) \<Rightarrow> (None, s5\<lparr>promise := resolve (promise s5)\<rparr>)))"
    using ut xy by (simp add: on_expected_status_def Let_def split: option.splits)
  obtain u s5 where bs: "?bs = (u, s5)" by (cases ?bs)
  obtain w t5 where bt: "?bt = (w, t5)" by (cases ?bt)
  from b bs bt have uw: "w = u" and s5: "sim s5 t5" by simp_all
  show "fst (on_expected_status E r s) = fst (on_expected_status E r t)"
    unfolding es et bs bt uw by (simp split: option.splits)
  show "sim (snd (on_expected_status E r s)) (snd (on_expected_status E r t))"
    unfolding es et bs bt uw using s2 s5 by (simp add: sim_diagram_promise split: option.splits)
qed

lemma on_response_sim:
  assumes "sim s t"
  shows "fst (on_response E r s) = fst (on_response E r t)"
    and "sim (snd (on_response E r s)) (snd (on_response E r t))"
proof -
  let ?d = "\<lambda>s::rest_invocation. s\<lparr>log := log s @ [LogDebug ''Calling''],
                 diagram := diagram s @
                   [Request (serviceName (self s))
                      (request_method r @ '' '' @ request_path r)]\<rparr>"
  from assms have codes: "expectedStatusCodes (self s) = expectedStatusCodes (self t)"
    by (simp add: sim_def)
  have d: "sim (?d s) (?d t)"
    using assms by (simp add: sim_def)
  show "fst (on_response E r s) = fst (on_response E r t)"
    using on_expected_status_sim(1) [OF d, of E r] codes
    by (simp add: on_response_def Let_def)
  show "sim (snd (on_response E r s)) (snd (on_response E r t))"
  proof (cases "statusCode r \<in> set (expectedStatusCodes (self t))")
    case True
    with on_expected_status_sim(2) [OF d, of E r] codes show ?thesis
      by (simp add: on_response_def Let_def)
  next
    case False
    with codes assms show ?thesis
      by (simp add: on_response_def Let_def sim_def)
  qed
qed

lemma generateRequestBody_frame:
  "generateRequestBody E s = Inr (b, s') \<Longrightarrow>
   self s' = self s \<and> cache s' = cache s \<and> requests s' = requests s"
  by (auto simp add: generateRequestBody_def split: option.splits sum.splits jsval.splits)

lemma generateRequestBody_sim:
  "sim s t \<Longrightarrow>
   map_sum id fst (generateRequestBody E s) = map_sum id fst (generateRequestBody E t)"
  by (auto simp add: generateRequestBody_def sim_def split: option.splits sum.splits jsval.splits)

lemma getClientCertificateConfiguration_frame:
  "self (snd (getClientCertificateConfiguration E s)) = self s"
  "cache (snd (getClientCertificateConfiguration E s)) = cache s"
  "requests (snd (getClientCertificateConfiguration E s)) = requests s"
  by (simp_all add: getClientCertificateConfiguration_def Let_def
      split: sum.splits option.splits prod.splits)

lemma getClientCertificateConfiguration_sim:
  "clientCertificate (self s) = clientCertificate (self t) \<Longrightarrow>
   clientKey (self s) = clientKey (self t) \<Longrightarrow> cache s = cache t \<Longrightarrow>
   fst (getClientCertificateConfiguration E s) = fst (getClientCertificateConfiguration E t)"
  by (simp add: getClientCertificateConfiguration_def Let_def
      split: sum.splits option.splits prod.splits)


lemma generateRequestBody_promise:
  "generateRequestBody E s = Inr (b, s') \<Longrightarrow> promise s' = promise s \<or> promise s' = reject (promise s)"
  by (auto simp add: generateRequestBody_def split: option.splits sum.splits jsval.splits)

lemma getClientCertificateConfiguration_promise:
  "promise (snd (getClientCertificateConfiguration E s)) = promise s"
  by (simp add: getClientCertificateConfiguration_def Let_def
      split: sum.splits option.splits prod.splits)

lemma build_request_Inr:
  assumes "build_request E s = Inr (opts, s')"
  shows "\<exists>b s1. generateRequestBody E s = Inr (b, s1) \<and>
           s' = snd (getClientCertificateConfiguration E s1) \<and>
           maxAttempts opts = 3 \<and> retryDelay opts = 1000"
  using assms
  by (auto simp add: build_request_def split: sum.splits prod.splits)

lemma build_request_frame:
  assumes "build_request E s = Inr (opts, s')"
  shows "self s' = self s" "cache s' = cache s" "requests s' = requests s"
    "promise s' = promise s \<or> promise s' = reject (promise s)"
proof -
  from build_request_Inr [OF assms] obtain b s1 where
    g: "generateRequestBody E s = Inr (b, s1)" and
    s': "s' = snd (getClientCertificateConfiguration E s1)" by blast
  from generateRequestBody_frame [OF g] s'
  show "self s' = self s" "cache s' = cache s" "requests s' = requests s"
    by (simp_all add: getClientCertificateConfiguration_frame)
  from generateRequestBody_promise [OF g] s'
  show "promise s' = promise s \<or> promise s' = reject (promise s)"
    by (simp add: getClientCertificateConfiguration_promise)
qed

lemma build_request_sim:
  assumes "sim s t"
  shows "map_sum id fst (build_request E s) = map_sum id fst (build_request E t)"
proof -
  from assms have f: "cache s = cache t" "restHead (self s) = restHead (self t)"
    "form (self s) = form (self t)" "url (self s) = url (self t)"
    "queryParameters (self s) = queryParameters (self t)" "httpMethod (self s) = httpMethod (self t)"
    "expectBinaryResponse (self s) = expectBinaryResponse (self t)"
    by (simp_all add: sim_def)
  note g = generateRequestBody_sim [OF assms, of E]
  show ?thesis
  proof (cases "generateRequestBody E s")
    case (Inl e)
    with g have "generateRequestBody E t = Inl e"
      by (cases "generateRequestBody E t") simp_all
    then have gt: "generateRequestBody E t = Inl e" .
    show ?thesis
      unfolding build_request_def f Inl gt by simp
  next
    case (Inr bs)
    obtain b s1 where bs: "bs = (b, s1)" by (cases bs)
    with Inr g obtain t1 where gt: "generateRequestBody E t = Inr (b, t1)"
      by (cases "generateRequestBody E t") auto
    from generateRequestBody_frame [OF Inr [unfolded bs]] generateRequestBody_frame [OF gt] assms
    have "clientCertificate (self s1) = clientCertificate (self t1)"
      "clientKey (self s1) = clientKey (self t1)" "cache s1 = cache t1"
      by (simp_all add: sim_def)
    from getClientCertificateConfiguration_sim [OF this, of E]
    have c: "fst (getClientCertificateConfiguration E s1) = fst (getClientCertificateConfiguration E t1)" .
    have gs: "generateRequestBody E s = Inr (b, s1)"
      using Inr bs by simp
    show ?thesis
      unfolding build_request_def f gs gt
      by (simp add: case_prod_beta c split: sum.splits)
  qed
qed

lemma on_request_done_sim:
  assumes "sim s t"
  shows "sim (on_request_done E x s) (on_request_done E x t)"
proof (cases x)
  case (Inl err)
  with assms show ?thesis by (simp add: on_request_done_def sim_def)
next
  case (Inr r)
  obtain u s3 where rs: "on_response E r s = (u, s3)" by (cases "on_response E r s")
  obtain w t3 where rt: "on_response E r t = (w, t3)" by (cases "on_response E r t")
  from on_response_sim [OF assms, of E r] rs rt have "w = u" "sim s3 t3" by simp_all
  with Inr rs rt show ?thesis
    by (cases u) (simp_all add: on_request_done_def sim_def)
qed

lemma RestAction_invoke_cache:
  "cache (RestAction_invoke E (a\<lparr>responseValidation := vs\<rparr>) c) = cache (RestAction_invoke E a c)"
proof -
  let ?s = "rest_init (a\<lparr>responseValidation := vs\<rparr>) c"
  let ?t = "rest_init a c"
  have st: "sim ?s ?t"
    by (simp add: sim_def rest_init_def)
  note b = build_request_sim [OF st, of E]
  show ?thesis
  proof (cases "build_request E ?t")
    case (Inl e)
    with b have "build_request E ?s = Inl e"
      by (cases "build_request E ?s") simp_all
    with Inl show ?thesis
      by (simp add: RestAction_invoke_def rest_init_def)
  next
    case (Inr ot)
    obtain opts t1 where ot: "ot = (opts, t1)" by (cases ot)
    with Inr b obtain s1 where bs: "build_request E ?s = Inr (opts, s1)"
      by (cases "build_request E ?s") auto
    have bt: "build_request E ?t = Inr (opts, t1)"
      using Inr ot by simp
    have "sim s1 t1"
      using build_request_frame(1-3) [OF bs] build_request_frame(1-3) [OF bt] st
      by (simp add: sim_def)
    then have "sim (s1\<lparr>requests := requests s1 @ [opts]\<rparr>) (t1\<lparr>requests := requests t1 @ [opts]\<rparr>)"
      by (simp add: sim_def)
    from on_request_done_sim [OF this, of E "request E opts"] bs bt
    show ?thesis
      by (simp add: RestAction_invoke_def sim_def)
  qed
qed

subsection \<open>The action object is not written to\<close>

lemma on_body_self: "self (snd (on_body E r b s)) = self s"
  "requests (snd (on_body E r b s)) = requests s"
  by (simp_all add: on_body_def updateScenarioCache_self try_validateBody_frame split: sum.splits)

lemma on_expected_status_self: "self (snd (on_expected_status E r s)) = self s"
  "requests (snd (on_expected_status E r s)) = requests s"
proof -
  let ?h = "headers_value (Response.headers r)"
  let ?s1 = "validateHeaders E ?h (s\<lparr>log := log s @ [LogDebug ''Response'']\<rparr>)"
  obtain x s2 where us: "updateScenarioCache E JUndefined ?h ?s1 = (x, s2)"
    by (cases "updateScenarioCache E JUndefined ?h ?s1")
  from updateScenarioCache_self [of E JUndefined ?h ?s1] us
  have s2: "self s2 = self s" "requests s2 = requests s"
    by (simp_all add: validateHeaders_frame)
  have "self (snd (on_expected_status E r s)) = self s \<and>
        requests (snd (on_expected_status E r s)) = requests s"
  proof (cases "Response.body r")
    case None
    with us s2 show ?thesis
      by (simp add: on_expected_status_def Let_def split: option.splits)
  next
    case (Some b)
    obtain u s5 where ob: "on_body E r b s2 = (u, s5)" by (cases "on_body E r b s2")
    with on_body_self [of E r b s2] s2 have "self s5 = self s" "requests s5 = requests s"
      by simp_all
    with us s2 Some ob show ?thesis
      by (simp add: on_expected_status_def Let_def split: option.splits)
  qed
  then show "self (snd (on_expected_status E r s)) = self s"
    "requests (snd (on_expected_status E r s)) = requests s" by simp_all
qed

lemma on_response_self: "self (snd (on_response E r s)) = self s"
  "requests (snd (on_response E r s)) = requests s"
  by (simp_all add: on_response_def Let_def on_expected_status_self)

lemma on_request_done_self: "self (on_request_done E x s) = self s"
  "requests (on_request_done E x s) = requests s"
proof -
  have "self (on_request_done E x s) = self s \<and> requests (on_request_done E x s) = requests s"
  proof (cases x)
    case (Inl err)
    then show ?thesis by (simp add: on_request_done_def)
  next
    case (Inr r)
    obtain u s3 where rs: "on_response E r s = (u, s3)" by (cases "on_response E r s")
    with on_response_self [of E r s] have "self s3 = self s" "requests s3 = requests s"
      by simp_all
    with Inr rs show ?thesis by (cases u) (simp_all add: on_request_done_def)
  qed
  then show "self (on_request_done E x s) = self s"
    "requests (on_request_done E x s) = requests s" by simp_all
qed

lemma RestAction_invoke_self: "self (RestAction_invoke E a c) = a"
proof (cases "build_request E (rest_init a c)")
  case (Inl e)
  then show ?thesis by (simp add: RestAction_invoke_def rest_init_def)
next
  case (Inr os)
  obtain opts s1 where os: "os = (opts, s1)" by (cases os)
  from build_request_frame(1) [OF Inr [unfolded os]] have "self s1 = a"
    by (simp add: rest_init_def)
  with Inr os show ?thesis
    by (simp add: RestAction_invoke_def on_request_done_self)
qed


subsection \<open>How the promise is settled\<close>

lemma promise_validate_head_each:
  "promise (validate_head_each E h vs s) =
     (if list_ex (validation_fails E [(''head'', h)]) vs then reject (promise s) else promise s)"
  by (induction vs arbitrary: s)
     (simp_all add: validation_fails_def reject_reject split: sum.splits)

lemma promise_validateHeaders:
  "promise (validateHeaders E (headers_value (Response.headers r)) s) =
     (if head_validation_fails E (self s) r then reject (promise s) else promise s)"
  by (simp add: validateHeaders_def head_validation_fails_def promise_validate_head_each)

lemma promise_updateScenarioCache:
  "promise (snd (updateScenarioCache E r h s)) = promise s"
  by (simp add: updateScenarioCache_def split: option.splits prod.splits)

lemma validate_body_each_result:
  "(fst (validate_body_each E r vs s) = None) = (\<not> list_ex (validation_fails E [(''res'', r)]) vs) \<and>
   promise (snd (validate_body_each E r vs s)) = promise s"
  by (induction vs arbitrary: s) (simp_all add: validation_fails_def split: sum.splits)

lemma promise_try_validateBody:
  "promise (try_validateBody E p s) =
     (if body_validation_fails E (self s) p then reject (promise s) else promise s)"
proof -
  let ?vs = "filter (\<lambda>v. startsWith v ''res.'') (responseValidation (self s))"
  obtain x t where v: "validate_body_each E p ?vs s = (x, t)"
    by (cases "validate_body_each E p ?vs s")
  with validate_body_each_result [of E p ?vs s]
  have "(x = None) = (\<not> body_validation_fails E (self s) p)" "promise t = promise s"
    by (simp_all add: body_validation_fails_def)
  with v show ?thesis
    by (cases x) (auto simp add: try_validateBody_def validateBody_def split: exn.splits)
qed

lemma promise_on_body:
  "promise (snd (on_body E r b s)) =
     (case parseResponseBody E b (map_of (Response.headers r) ''content-type'') of
        Inl e \<Rightarrow> promise s
      | Inr p \<Rightarrow> if body_validation_fails E (self s) p then reject (promise s) else promise s)"
  by (simp add: on_body_def promise_updateScenarioCache promise_try_validateBody split: sum.splits)

lemma fst_on_body_parse_error:
  "parseResponseBody E b (map_of (Response.headers r) ''content-type'') = Inl e \<Longrightarrow>
   fst (on_body E r b s) = Some e"
  by (simp add: on_body_def)

text \<open>The promise after the branch of an expected status code.\<close>

lemma on_expected_status_promise:
  assumes "promise s \<noteq> Resolved"
  shows "fst (on_expected_status E r s) \<noteq> None \<Longrightarrow>
           promise (snd (on_expected_status E r s)) \<noteq> Resolved"
    and "fst (on_expected_status E r s) = None \<Longrightarrow> head_validation_fails E (self s) r \<Longrightarrow>
           promise (snd (on_expected_status E r s)) = Rejected"
    and "fst (on_expected_status E r s) = None \<Longrightarrow> Response.body r = Some b \<Longrightarrow>
         parseResponseBody E b (map_of (Response.headers r) ''content-type'') = Inr p \<Longrightarrow>
         body_validation_fails E (self s) p \<Longrightarrow>
           promise (snd (on_expected_status E r s)) = Rejected"
proof -
  let ?h = "headers_value (Response.headers r)"
  let ?s1 = "validateHeaders E ?h (s\<lparr>log := log s @ [LogDebug ''Response'']\<rparr>)"
  obtain x s2 where us: "updateScenarioCache E JUndefined ?h ?s1 = (x, s2)"
    by (cases "updateScenarioCache E JUndefined ?h ?s1")
  have p1: "promise ?s1 = (if head_validation_fails E (self s) r then reject (promise s) else promise s)"
    by (simp add: promise_validateHeaders)
  from promise_updateScenarioCache [of E JUndefined ?h ?s1] updateScenarioCache_self(1) [of E JUndefined ?h ?s1] us
  have s2: "promise s2 = promise ?s1" "self s2 = self s"
    by (simp_all add: validateHeaders_frame)
  from p1 s2 assms have n2: "promise s2 \<noteq> Resolved"
    by (auto simp add: reject_unresolved)
  from p1 s2 assms have h2: "head_validation_fails E (self s) r \<Longrightarrow> promise s2 = Rejected"
    by (simp add: reject_unresolved)
  let ?bs = "case Response.body r of
               None \<Rightarrow> (None, s2\<lparr>diagram := diagram s2 @
                             [SuccessfulResponse (serviceName (self s2)) (statusCode r)]\<rparr>)
             | Some b \<Rightarrow> on_body E r b s2"
  obtain u s5 where bs: "?bs = (u, s5)" by (cases ?bs)
  have es: "on_expected_status E r s =
      (case x of Some e \<Rightarrow> (Some e, s2)
       | None \<Rightarrow> (case u of Some e \<Rightarrow> (Some e, s5)
                   | None \<Rightarrow> (None, s5\<lparr>promise := resolve (promise s5)\<rparr>)))"
    using us bs by (simp add: on_expected_status_def Let_def split: option.splits)
  have p5: "promise s5 = promise s2 \<or> promise s5 = reject (promise s2)"
  proof (cases "Response.body r")
    case None
    with bs show ?thesis by auto
  next
    case (Some b')
    with bs have "promise s5 = promise (snd (on_body E r b' s2))" by simp
    then show ?thesis
      by (simp add: promise_on_body split: sum.splits)
  qed
  with n2 have n5: "promise s5 \<noteq> Resolved"
    by (auto simp add: reject_unresolved)
  from p5 have r5: "promise s2 = Rejected \<Longrightarrow> promise s5 = Rejected"
    by auto
  show "fst (on_expected_status E r s) \<noteq> None \<Longrightarrow>
           promise (snd (on_expected_status E r s)) \<noteq> Resolved"
    unfolding es using n2 n5 by (auto split: option.splits)
  show "fst (on_expected_status E r s) = None \<Longrightarrow> head_validation_fails E (self s) r \<Longrightarrow>
           promise (snd (on_expected_status E r s)) = Rejected"
    unfolding es using h2 r5 by (auto split: option.splits)
  show "promise (snd (on_expected_status E r s)) = Rejected"
    if "fst (on_expected_status E r s) = None" "Response.body r = Some b"
      "parseResponseBody E b (map_of (Response.headers r) ''content-type'') = Inr p"
      "body_validation_fails E (self s) p"
  proof -
    from that(2-4) bs promise_on_body [of E r b s2] s2(2)
    have "promise s5 = reject (promise s2)" by simp
    with n2 have "promise s5 = Rejected" by (simp add: reject_unresolved)
    with that(1) show ?thesis unfolding es by (auto split: option.splits)
  qed
qed

lemma on_response_unexpected:
  "statusCode r \<notin> set (expectedStatusCodes (self s)) \<Longrightarrow>
   fst (on_response E r s) = None \<and> promise (snd (on_response E r s)) = reject (promise s) \<and>
   cache (snd (on_response E r s)) = cache s"
  by (simp add: on_response_def Let_def)

lemma on_response_expected:
  "statusCode r \<in> set (expectedStatusCodes (self s)) \<Longrightarrow>
   on_response E r s =
     on_expected_status E r
       (s\<lparr>log := log s @ [LogDebug ''Calling''],
          diagram := diagram s @
            [Request (serviceName (self s)) (request_method r @ '' '' @ request_path r)]\<rparr>)"
  by (simp add: on_response_def Let_def)

lemma on_request_done_validation:
  assumes "promise s \<noteq> Resolved" and "statusCode r \<in> set (expectedStatusCodes (self s))"
    and "head_validation_fails E (self s) r \<or>
         (\<exists>b p. Response.body r = Some b \<and>
            parseResponseBody E b (map_of (Response.headers r) ''content-type'') = Inr p \<and>
            body_validation_fails E (self s) p)"
  shows "promise (on_request_done E (Inr r) s) = Rejected"
proof -
  let ?s = "s\<lparr>log := log s @ [LogDebug ''Calling''],
          diagram := diagram s @
            [Request (serviceName (self s)) (request_method r @ '' '' @ request_path r)]\<rparr>"
  have n: "promise ?s \<noteq> Resolved" and sf: "self ?s = self s"
    using assms(1) by simp_all
  obtain u s3 where o: "on_expected_status E r ?s = (u, s3)"
    by (cases "on_expected_status E r ?s")
  show ?thesis
  proof (cases u)
    case None
    with o have f: "fst (on_expected_status E r ?s) = None" by simp
    from assms(3) have "promise (snd (on_expected_status E r ?s)) = Rejected"
    proof
      assume "head_validation_fails E (self s) r"
      with on_expected_status_promise(2) [OF n f] sf show ?thesis by simp
    next
      assume "\<exists>b p. Response.body r = Some b \<and>
            parseResponseBody E b (map_of (Response.headers r) ''content-type'') = Inr p \<and>
            body_validation_fails E (self s) p"
      then obtain b p where "Response.body r = Some b"
        "parseResponseBody E b (map_of (Response.headers r) ''content-type'') = Inr p"
        "body_validation_fails E (self s) p" by blast
      with on_expected_status_promise(3) [OF n f, of b p] sf show ?thesis by simp
    qed
    with o None assms(2) show ?thesis
      by (simp add: on_request_done_def on_response_expected)
  next
    case (Some e)
    with o have "fst (on_expected_status E r ?s) \<noteq> None" by simp
    from on_expected_status_promise(1) [OF n this] o have "promise s3 \<noteq> Resolved" by simp
    with o Some assms(2) show ?thesis
      by (simp add: on_request_done_def on_response_expected reject_unresolved)
  qed
qed

lemma RestAction_invoke_requests:
  assumes "requests (RestAction_invoke E a c) = [opts]"
  shows "\<exists>s1. promise s1 \<noteq> Resolved \<and> self s1 = a \<and> cache s1 = c \<and>
           RestAction_invoke E a c = on_request_done E (request E opts) s1"
proof (cases "build_request E (rest_init a c)")
  case (Inl e)
  with assms show ?thesis by (simp add: RestAction_invoke_def rest_init_def)
next
  case (Inr os)
  obtain ro s1 where os: "os = (ro, s1)" by (cases os)
  note b = Inr [unfolded os]
  note f = build_request_frame [OF b]
  let ?s2 = "s1\<lparr>requests := requests s1 @ [ro]\<rparr>"
  have inv: "RestAction_invoke E a c = on_request_done E (request E ro) ?s2"
    using b by (simp add: RestAction_invoke_def)
  with assms f(3) have "ro = opts"
    by (simp add: on_request_done_self rest_init_def)
  moreover from f(4) have "promise ?s2 \<noteq> Resolved"
    by (auto simp add: rest_init_def)
  moreover from f(1,2) have "self ?s2 = a" "cache ?s2 = c"
    by (simp_all add: rest_init_def)
  ultimately show ?thesis using inv by blast
qed


text \<open>
  C3. An action constructed without the argument for the expected status codes
  takes them from its definition, and expects 200, 201 and 204 when the definition
  has none. Whenever the invocation has issued its request and the response
  carries a status code outside the action's expected codes, the promise is
  rejected and the scenario cache is left as it was. Nothing is assumed of the
  validations: the body is never looked at.
\<close>

theorem rest_unexpected_status_fails:
  "expectedStatusCodes
     (RestAction_new nm desc d u svc m q h dt db f vp vals vars None iof af cc ck eb dc) =
     (case RestActionDefinition.expectedStatusCodes d of None \<Rightarrow> [200, 201, 204] | Some cs \<Rightarrow> cs) \<and>
   (requests (RestAction_invoke E a c) = [opts] \<and> request E opts = Inr r \<and>
    statusCode r \<notin> set (expectedStatusCodes a) \<longrightarrow>
      promise (RestAction_invoke E a c) = Rejected \<and> cache (RestAction_invoke E a c) = c)"
proof -
  have 1: "expectedStatusCodes
     (RestAction_new nm desc d u svc m q h dt db f vp vals vars None iof af cc ck eb dc) =
     (case RestActionDefinition.expectedStatusCodes d of None \<Rightarrow> [200, 201, 204] | Some cs \<Rightarrow> cs)"
    by (simp add: RestAction_new_def split: option.splits)
  have 2: "promise (RestAction_invoke E a c) = Rejected \<and> cache (RestAction_invoke E a c) = c"
    if "requests (RestAction_invoke E a c) = [opts]" "request E opts = Inr r"
      "statusCode r \<notin> set (expectedStatusCodes a)"
  proof -
    from RestAction_invoke_requests [OF that(1)] obtain s1 where
      s1: "promise s1 \<noteq> Resolved" "self s1 = a" "cache s1 = c"
        "RestAction_invoke E a c = on_request_done E (request E opts) s1" by blast
    from that(3) s1(2) have "statusCode r \<notin> set (expectedStatusCodes (self s1))" by simp
    from on_response_unexpected [OF this, of E] obtain s3 where
      "on_response E r s1 = (None, s3)" "promise s3 = reject (promise s1)" "cache s3 = cache s1"
      by (cases "on_response E r s1") auto
    with s1 that(2) show ?thesis
      by (simp add: on_request_done_def reject_unresolved)
  qed
  from 1 2 show ?thesis by blast
qed

theorem rest_unexpected_status_fails_witness:
  "promise (RestAction_invoke demo_env_404
      (demo_rest\<lparr>responseValidation := [''res.code === 200'']\<rparr>) Map.empty) = Rejected \<and>
   cache (RestAction_invoke demo_env_404
      (demo_rest\<lparr>responseValidation := [''res.code === 200'']\<rparr>) Map.empty) = Map.empty \<and>
   \<not> body_validation_fails demo_env_404
      (demo_rest\<lparr>responseValidation := [''res.code === 200'']\<rparr>) (JObj [])"
proof -
  let ?a = "demo_rest\<lparr>responseValidation := [''res.code === 200'']\<rparr>"
  let ?r = "\<lparr>statusCode = 404, statusMessage = ''Not Found'',
             headers = [(''content-type'', ''application/json'')],
             body = Some (StringBody ''{}''), request_method = ''POST'',
             request_path = ''/login''\<rparr>"
  have h: "requests (RestAction_invoke demo_env_404 ?a Map.empty) = [demo_request]"
    "request demo_env_404 demo_request = Inr ?r"
    "statusCode ?r \<notin> set (expectedStatusCodes ?a)"
    "\<not> body_validation_fails demo_env_404 ?a (JObj [])"
    by code_simp+
  note t = rest_unexpected_status_fails [where E = demo_env_404 and a = ?a and c = Map.empty
      and opts = demo_request and r = ?r]
  from t h show ?thesis by blast
qed

lemma update_pairs_Cons:
  "update_pairs E res head ((k, v) # ps) (c, lg) =
     (if read_from res head v then
        (case js_eval E v [(''res'', res), (''head'', head)] of
           Inl e \<Rightarrow> (Some e, c, lg)
         | Inr x \<Rightarrow> update_pairs E res head ps (c(k \<mapsto> x), lg @ [LogDebug ''Setting cache'']))
      else update_pairs E res head ps (c, lg @ [LogDebug ''Setting cache'']))"
  by (simp only: update_pairs.simps read_from_def)

lemma update_pairs_frame:
  "(\<And>v. (k, v) \<in> set ps \<Longrightarrow> \<not> read_from res head v) \<Longrightarrow>
   fst (snd (update_pairs E res head ps (c, lg))) k = c k"
proof (induction ps arbitrary: c lg)
  case Nil
  then show ?case by simp
next
  case (Cons p ps)
  obtain k' v' where p: "p = (k', v')" by (cases p)
  have ih: "fst (snd (update_pairs E res head ps (c', lg'))) k = c' k" for c' lg'
    using Cons.IH [of c' lg'] Cons.prems by simp
  show ?case
  proof (cases "k' = k")
    case True
    with Cons.prems [of v'] p have "\<not> read_from res head v'" by simp
    then show ?thesis unfolding p update_pairs_Cons using ih by simp
  next
    case False
    then show ?thesis unfolding p update_pairs_Cons using ih by (simp split: sum.splits)
  qed
qed

lemma update_pairs_no_throw:
  "list_all (\<lambda>(k, v). read_from res head v \<longrightarrow> evaluates E [(''res'', res), (''head'', head)] v) ps \<Longrightarrow>
   fst (update_pairs E res head ps (c, lg)) = None"
proof (induction ps arbitrary: c lg)
  case Nil
  then show ?case by simp
next
  case (Cons p ps)
  obtain k' v' where p: "p = (k', v')" by (cases p)
  from Cons.prems have ih: "fst (update_pairs E res head ps (c', lg')) = None" for c' lg'
    using Cons.IH [of c' lg'] by simp
  from Cons.prems p show ?case
    unfolding p update_pairs_Cons using ih
    by (auto simp add: evaluates_def split: sum.splits)
qed

lemma update_pairs_writes:
  assumes "distinct (map fst ps)" and "(k, v) \<in> set ps" and "read_from res head v"
    and "fst (update_pairs E res head ps (c, lg)) = None"
    and "js_eval E v [(''res'', res), (''head'', head)] = Inr x"
  shows "fst (snd (update_pairs E res head ps (c, lg))) k = Some x"
  using assms(1,2,4)
proof (induction ps arbitrary: c lg)
  case Nil
  then show ?case by simp
next
  case (Cons p ps)
  obtain k' v' where p: "p = (k', v')" by (cases p)
  show ?case
  proof (cases "(k', v') = (k, v)")
    case True
    from Cons.prems(1) p True have "\<And>w. (k, w) \<notin> set ps"
      by (auto simp add: image_iff) 
    then have "fst (snd (update_pairs E res head ps (c', lg'))) k = c' k" for c' lg'
      by (intro update_pairs_frame) simp
    with True assms(3,5) show ?thesis
      unfolding p update_pairs_Cons by simp
  next
    case False
    with Cons.prems(2) p have m: "(k, v) \<in> set ps" by auto
    from Cons.prems(1) have d: "distinct (map fst ps)" by simp
    from Cons.prems(3) p
    have pr: "fst (if read_from res head v' then
        (case js_eval E v' [(''res'', res), (''head'', head)] of
           Inl e \<Rightarrow> (Some e, c, lg)
         | Inr x \<Rightarrow> update_pairs E res head ps (c(k' \<mapsto> x), lg @ [LogDebug ''Setting cache'']))
      else update_pairs E res head ps (c, lg @ [LogDebug ''Setting cache''])) = None"
      by (simp only: update_pairs_Cons)
    show ?thesis
    proof (cases "read_from res head v'")
      case True
      with pr obtain y where y: "js_eval E v' [(''res'', res), (''head'', head)] = Inr y"
        by (cases "js_eval E v' [(''res'', res), (''head'', head)]") auto
      with pr True
      have "fst (update_pairs E res head ps (c(k' \<mapsto> y), lg @ [LogDebug ''Setting cache''])) = None"
        by simp
      from Cons.IH [OF d m this] y True show ?thesis
        unfolding p update_pairs_Cons by (simp del: fun_upd_apply)
    next
      case False
      with pr
      have "fst (update_pairs E res head ps (c, lg @ [LogDebug ''Setting cache''])) = None"
        by simp
      from Cons.IH [OF d m this] False show ?thesis
        unfolding p update_pairs_Cons by simp
    qed
  qed
qed


lemma head_not_res: "startsWith v ''head'' \<Longrightarrow> \<not> startsWith v ''res''"
proof
  assume "startsWith v ''head''" "startsWith v ''res''"
  then have h: "take (length ''head'') v = ''head''" and r: "take (length ''res'') v = ''res''"
    unfolding startsWith_def by blast+
  from h have "take (length ''res'') (take (length ''head'') v) = take (length ''res'') ''head''"
    by (simp only:)
  with r show False by simp
qed

lemma read_from_phases:
  "read_from JUndefined (headers_value h) v \<longleftrightarrow> startsWith v ''head''"
  "p \<noteq> JUndefined \<Longrightarrow> read_from p JUndefined v \<longleftrightarrow> startsWith v ''res''"
  by (simp_all add: read_from_def headers_value_def)

lemma on_body_cache:
  "cache (snd (on_body E r b s)) =
     (case parseResponseBody E b (map_of (Response.headers r) ''content-type'') of
        Inl e \<Rightarrow> cache s
      | Inr p \<Rightarrow>
          (case variables (self s) of
             None \<Rightarrow> cache s
           | Some vs \<Rightarrow>
               fst (snd (update_pairs E p JUndefined vs (cache s, [])))))"
proof (cases "parseResponseBody E b (map_of (Response.headers r) ''content-type'')")
  case (Inl e)
  then show ?thesis by (simp add: on_body_def)
next
  case (Inr p)
  let ?t = "try_validateBody E p
     (s\<lparr>diagram := diagram s @ [SuccessfulResponseArrow (serviceName (self s)) (statusCode r)]\<rparr>)"
  have t: "self ?t = self s" "cache ?t = cache s"
    by (simp_all add: try_validateBody_frame)
  have "cache (snd (on_body E r b s)) = cache (snd (updateScenarioCache E p JUndefined ?t))"
    using Inr by (simp add: on_body_def)
  also have "\<dots> = (case variables (self s) of None \<Rightarrow> cache s
      | Some vs \<Rightarrow> fst (snd (update_pairs E p JUndefined vs (cache s, log ?t))))"
    by (simp add: updateScenarioCache_cache t cong: option.case_cong)
  also have "\<dots> = (case variables (self s) of None \<Rightarrow> cache s
      | Some vs \<Rightarrow> fst (snd (update_pairs E p JUndefined vs (cache s, []))))"
    using update_pairs_log [of E p JUndefined _ "cache s" "log ?t" "[]"]
    by (simp cong: option.case_cong)
  finally show ?thesis using Inr by simp
qed

lemma on_expected_status_cache:
  assumes "variables (self s) = Some vars"
    and "fst (update_pairs E JUndefined (headers_value (Response.headers r)) vars (cache s, [])) = None"
  shows "cache (snd (on_expected_status E r s)) =
     (let c1 = fst (snd (update_pairs E JUndefined (headers_value (Response.headers r)) vars
                 (cache s, [])))
      in case Response.body r of
           None \<Rightarrow> c1
         | Some b \<Rightarrow>
             (case parseResponseBody E b (map_of (Response.headers r) ''content-type'') of
                Inl e \<Rightarrow> c1
              | Inr p \<Rightarrow> fst (snd (update_pairs E p JUndefined vars (c1, [])))))"
proof -
  let ?h = "headers_value (Response.headers r)"
  let ?s1 = "validateHeaders E ?h (s\<lparr>log := log s @ [LogDebug ''Response'']\<rparr>)"
  let ?c1 = "fst (snd (update_pairs E JUndefined ?h vars (cache s, [])))"
  have s1: "self ?s1 = self s" "cache ?s1 = cache s"
    by (simp_all add: validateHeaders_frame)
  obtain x s2 where us: "updateScenarioCache E JUndefined ?h ?s1 = (x, s2)"
    by (cases "updateScenarioCache E JUndefined ?h ?s1")
  from updateScenarioCache_fst [of E JUndefined ?h ?s1] us assms s1
    update_pairs_log [of E JUndefined ?h vars "cache s" "log ?s1" "[]"]
  have x: "x = None" by simp
  from updateScenarioCache_cache [of E JUndefined ?h ?s1] us assms(1) s1
    update_pairs_log [of E JUndefined ?h vars "cache s" "log ?s1" "[]"]
  have c2: "cache s2 = ?c1" by simp
  from updateScenarioCache_self(1) [of E JUndefined ?h ?s1] us s1 assms(1)
  have v2: "variables (self s2) = Some vars" by simp
  show ?thesis
  proof (cases "Response.body r")
    case None
    with us x c2 show ?thesis
      by (simp add: on_expected_status_def Let_def)
  next
    case (Some b)
    obtain u s5 where ob: "on_body E r b s2 = (u, s5)" by (cases "on_body E r b s2")
    from on_body_cache [of E r b s2] ob c2 v2
    have "cache s5 =
       (case parseResponseBody E b (map_of (Response.headers r) ''content-type'') of
          Inl e \<Rightarrow> ?c1 | Inr p \<Rightarrow> fst (snd (update_pairs E p JUndefined vars (?c1, []))))"
      by (simp cong: sum.case_cong)
    with us x Some ob show ?thesis
      by (cases u) (simp_all add: on_expected_status_def Let_def)
  qed
qed

lemma on_request_done_cache:
  assumes "statusCode r \<in> set (expectedStatusCodes (self s))"
    and "variables (self s) = Some vars"
    and "fst (update_pairs E JUndefined (headers_value (Response.headers r)) vars (cache s, [])) = None"
  shows "cache (on_request_done E (Inr r) s) =
     (let c1 = fst (snd (update_pairs E JUndefined (headers_value (Response.headers r)) vars
                 (cache s, [])))
      in case Response.body r of
           None \<Rightarrow> c1
         | Some b \<Rightarrow>
             (case parseResponseBody E b (map_of (Response.headers r) ''content-type'') of
                Inl e \<Rightarrow> c1
              | Inr p \<Rightarrow> fst (snd (update_pairs E p JUndefined vars (c1, [])))))"
proof -
  let ?s = "s\<lparr>log := log s @ [LogDebug ''Calling''],
          diagram := diagram s @
            [Request (serviceName (self s)) (request_method r @ '' '' @ request_path r)]\<rparr>"
  have "cache (on_request_done E (Inr r) s) = cache (snd (on_expected_status E r ?s))"
    using assms(1)
    by (simp add: on_request_done_def on_response_expected split: prod.splits option.splits)
  with on_expected_status_cache [of ?s vars E r] assms(2,3) show ?thesis by simp
qed


lemma RestAction_invoke_cache_written:
  assumes rq: "requests (RestAction_invoke E a c) = [opts]" "request E opts = Inr r"
    and st: "statusCode r \<in> set (expectedStatusCodes a)"
    and vars: "variables a = Some vars" "distinct (map fst vars)"
    and hd: "list_all (\<lambda>(k', v'). startsWith v' ''head'' \<longrightarrow>
        evaluates E [(''res'', JUndefined), (''head'', headers_value (Response.headers r))] v') vars"
  shows "(k, v) \<in> set vars \<Longrightarrow> startsWith v ''head'' \<Longrightarrow>
      js_eval E v [(''res'', JUndefined), (''head'', headers_value (Response.headers r))] = Inr x \<Longrightarrow>
      cache (RestAction_invoke E a c) k = Some x"
    and "Response.body r = Some b \<Longrightarrow>
      parseResponseBody E b (map_of (Response.headers r) ''content-type'') = Inr p \<Longrightarrow>
      p \<noteq> JUndefined \<Longrightarrow>
      list_all (\<lambda>(k', v'). startsWith v' ''res'' \<longrightarrow>
        evaluates E [(''res'', p), (''head'', JUndefined)] v') vars \<Longrightarrow>
      (k, v) \<in> set vars \<Longrightarrow> startsWith v ''res'' \<Longrightarrow>
      js_eval E v [(''res'', p), (''head'', JUndefined)] = Inr x \<Longrightarrow>
      cache (RestAction_invoke E a c) k = Some x"
proof -
  let ?h = "headers_value (Response.headers r)"
  let ?c1 = "fst (snd (update_pairs E JUndefined ?h vars (c, [])))"
  from RestAction_invoke_requests [OF rq(1)] obtain s1 where
    s1: "self s1 = a" "cache s1 = c"
      "RestAction_invoke E a c = on_request_done E (request E opts) s1" by blast
  from hd have n1: "fst (update_pairs E JUndefined ?h vars (c, [])) = None"
    by (intro update_pairs_no_throw) (simp add: read_from_phases)
  from on_request_done_cache [of r s1 vars E] s1 rq(2) st vars(1) n1
  have fin: "cache (RestAction_invoke E a c) =
     (case Response.body r of
           None \<Rightarrow> ?c1
         | Some b \<Rightarrow>
             (case parseResponseBody E b (map_of (Response.headers r) ''content-type'') of
                Inl e \<Rightarrow> ?c1
              | Inr p \<Rightarrow> fst (snd (update_pairs E p JUndefined vars (?c1, [])))))"
    by (simp add: Let_def)
  show "cache (RestAction_invoke E a c) k = Some x"
    if kv: "(k, v) \<in> set vars" "startsWith v ''head''"
      "js_eval E v [(''res'', JUndefined), (''head'', ?h)] = Inr x"
  proof -
    from kv(2) have "read_from JUndefined ?h v" by (simp add: read_from_phases)
    from update_pairs_writes [OF vars(2) kv(1) this n1 kv(3)]
    have c1: "?c1 k = Some x" .
    have "fst (snd (update_pairs E q JUndefined vars (?c1, []))) k = ?c1 k" for q
    proof (rule update_pairs_frame)
      fix w assume "(k, w) \<in> set vars"
      with vars(2) kv(1) have "w = v" by (auto dest: eq_key_imp_eq_value)
      with kv(2) show "\<not> read_from q JUndefined w"
        by (simp add: read_from_def head_not_res)
    qed
    with c1 fin show ?thesis
      by (simp split: option.splits sum.splits)
  qed
  show "cache (RestAction_invoke E a c) k = Some x"
    if b: "Response.body r = Some b"
      "parseResponseBody E b (map_of (Response.headers r) ''content-type'') = Inr p"
      "p \<noteq> JUndefined"
      and rs: "list_all (\<lambda>(k', v'). startsWith v' ''res'' \<longrightarrow>
        evaluates E [(''res'', p), (''head'', JUndefined)] v') vars"
      and kv: "(k, v) \<in> set vars" "startsWith v ''res''"
      "js_eval E v [(''res'', p), (''head'', JUndefined)] = Inr x"
  proof -
    from rs b(3) have n2: "fst (update_pairs E p JUndefined vars (?c1, [])) = None"
      by (intro update_pairs_no_throw) (simp add: read_from_phases)
    from kv(2) b(3) have "read_from p JUndefined v" by (simp add: read_from_phases)
    from update_pairs_writes [OF vars(2) kv(1) this n2 kv(3)] fin b(1,2)
    show ?thesis by simp
  qed
qed

text \<open>
  C10. Take a REST invocation that has issued its request and received a response
  with an expected status code. The cache it leaves does not depend on the action's
  validations: it is the cache the same invocation leaves with no validation at
  all. When a header validation fails, or the body is parsed and a body validation
  fails, the promise is rejected. And the cache writes are performed, whatever the
  validations have done: when the variables have distinct names and the source
  expressions starting with \<open>head\<close> evaluate, every such variable holds the value
  of its expression, evaluated with \<open>head\<close> bound to the response headers; when
  moreover the body is parsed and the source expressions starting with \<open>res\<close>
  evaluate, every such variable holds the value of its expression, evaluated with
  \<open>res\<close> bound to the parsed body.
\<close>

theorem rest_cache_written_despite_failed_validation:
  "cache (RestAction_invoke E (a\<lparr>responseValidation := vs\<rparr>) c) = cache (RestAction_invoke E a c) \<and>
   (requests (RestAction_invoke E a c) = [opts] \<and> request E opts = Inr r \<and>
    statusCode r \<in> set (expectedStatusCodes a) \<and>
    (head_validation_fails E a r \<or>
     (\<exists>b p. Response.body r = Some b \<and>
        parseResponseBody E b (map_of (Response.headers r) ''content-type'') = Inr p \<and>
        body_validation_fails E a p)) \<longrightarrow>
      promise (RestAction_invoke E a c) = Rejected) \<and>
   (requests (RestAction_invoke E a c) = [opts] \<and> request E opts = Inr r \<and>
    statusCode r \<in> set (expectedStatusCodes a) \<and>
    variables a = Some vars \<and> distinct (map fst vars) \<and>
    list_all (\<lambda>(k', v'). startsWith v' ''head'' \<longrightarrow>
      evaluates E [(''res'', JUndefined), (''head'', headers_value (Response.headers r))] v') vars \<longrightarrow>
      ((kh, vh) \<in> set vars \<and> startsWith vh ''head'' \<and>
       js_eval E vh [(''res'', JUndefined), (''head'', headers_value (Response.headers r))] = Inr xh \<longrightarrow>
         cache (RestAction_invoke E a c) kh = Some xh) \<and>
      (Response.body r = Some rb \<and>
       parseResponseBody E rb (map_of (Response.headers r) ''content-type'') = Inr parsed \<and>
       parsed \<noteq> JUndefined \<and>
       list_all (\<lambda>(k', v'). startsWith v' ''res'' \<longrightarrow>
         evaluates E [(''res'', parsed), (''head'', JUndefined)] v') vars \<and>
       (kr, vr) \<in> set vars \<and> startsWith vr ''res'' \<and>
       js_eval E vr [(''res'', parsed), (''head'', JUndefined)] = Inr xr \<longrightarrow>
         cache (RestAction_invoke E a c) kr = Some xr))"
proof -
  have 2: "promise (RestAction_invoke E a c) = Rejected"
    if "requests (RestAction_invoke E a c) = [opts]" "request E opts = Inr r"
      "statusCode r \<in> set (expectedStatusCodes a)"
      "head_validation_fails E a r \<or>
       (\<exists>b p. Response.body r = Some b \<and>
          parseResponseBody E b (map_of (Response.headers r) ''content-type'') = Inr p \<and>
          body_validation_fails E a p)"
  proof -
    from RestAction_invoke_requests [OF that(1)] obtain s1 where
      s1: "promise s1 \<noteq> Resolved" "self s1 = a" "cache s1 = c"
        "RestAction_invoke E a c = on_request_done E (request E opts) s1" by blast
    from on_request_done_validation [of s1 r E] s1(1,2) that(3,4)
    have "promise (on_request_done E (Inr r) s1) = Rejected" by simp
    with s1(4) that(2) show ?thesis by simp
  qed
  note 3 = RestAction_invoke_cache_written(1) [where E = E and a = a and c = c and opts = opts
      and r = r and vars = vars and k = kh and v = vh and x = xh]
  note 4 = RestAction_invoke_cache_written(2) [where E = E and a = a and c = c and opts = opts
      and r = r and vars = vars and k = kr and v = vr and x = xr and b = rb and p = parsed]
  from 2 3 4 RestAction_invoke_cache [where E = E and a = a and vs = vs and c = c]
  show ?thesis by blast
qed

text \<open>
  C10 at an action whose header validation \<open>head.x\<close> and body validation \<open>res.ok\<close>
  both fail: the promise is rejected, and the variable read from the headers and
  the variable read from the body are both in the cache.
\<close>

theorem rest_cache_written_despite_failed_validation_witness:
  "promise (RestAction_invoke demo_env demo_rest_vars Map.empty) = Rejected \<and>
   head_validation_fails demo_env demo_rest_vars
     \<lparr>statusCode = 200, statusMessage = ''OK'',
      headers = [(''content-type'', ''application/json'')],
      body = Some (StringBody ''{}''), request_method = ''GET'', request_path = ''/''\<rparr> \<and>
   body_validation_fails demo_env demo_rest_vars (JObj []) \<and>
   cache (RestAction_invoke demo_env demo_rest_vars Map.empty) ''ctype'' =
     Some (JObj [(''content-type'', JStr ''application/json'')]) \<and>
   cache (RestAction_invoke demo_env demo_rest_vars Map.empty) ''token'' = Some (JObj [])"
proof -
  let ?r = "\<lparr>statusCode = 200, statusMessage = ''OK'',
             headers = [(''content-type'', ''application/json'')],
             body = Some (StringBody ''{}''), request_method = ''GET'',
             request_path = ''/''\<rparr>"
  let ?vars = "[(''token'', ''res''), (''ctype'', ''head'')]"
  have h: "requests (RestAction_invoke demo_env demo_rest_vars Map.empty) = [demo_request]"
    "request demo_env demo_request = Inr ?r"
    "statusCode ?r \<in> set (expectedStatusCodes demo_rest_vars)"
    "head_validation_fails demo_env demo_rest_vars ?r"
    "body_validation_fails demo_env demo_rest_vars (JObj [])"
    by code_simp+
  have k: "variables demo_rest_vars = Some ?vars" "distinct (map fst ?vars)"
    "list_all (\<lambda>(k', v'). startsWith v' ''head'' \<longrightarrow>
      evaluates demo_env [(''res'', JUndefined), (''head'', headers_value (Response.headers ?r))] v') ?vars"
    "(''ctype'', ''head'') \<in> set ?vars" "startsWith ''head'' ''head''"
    "js_eval demo_env ''head'' [(''res'', JUndefined), (''head'', headers_value (Response.headers ?r))] =
       Inr (JObj [(''content-type'', JStr ''application/json'')])"
    by code_simp+
  have l: "Response.body ?r = Some (StringBody ''{}'')"
    "parseResponseBody demo_env (StringBody ''{}'') (map_of (Response.headers ?r) ''content-type'') =
       Inr (JObj [])"
    "JObj [] \<noteq> JUndefined"
    "list_all (\<lambda>(k', v'). startsWith v' ''res'' \<longrightarrow>
         evaluates demo_env [(''res'', JObj []), (''head'', JUndefined)] v') ?vars"
    "(''token'', ''res'') \<in> set ?vars" "startsWith ''res'' ''res''"
    "js_eval demo_env ''res'' [(''res'', JObj []), (''head'', JUndefined)] = Inr (JObj [])"
    by code_simp+
  note t = rest_cache_written_despite_failed_validation [where E = demo_env and a = demo_rest_vars
      and c = Map.empty and opts = demo_request and r = ?r and vars = ?vars
      and kh = "''ctype''" and vh = "''head''"
      and xh = "JObj [(''content-type'', JStr ''application/json'')]"
      and rb = "StringBody ''{}''" and parsed = "JObj []"
      and kr = "''token''" and vr = "''res''" and xr = "JObj []"]
  from t h k l show ?thesis by blast
qed

section \<open>Where the execution state lives\<close>

lemma self_pub_step: "self (pub_step E s ev) = self s"
  by (simp add: pub_step_def pub_on_connect_def pub_on_published_def pub_on_error_def Let_def
      split: publish_event.splits sum.splits option.splits)

lemma self_pub_run: "self (pub_run E s evs) = self s"
  unfolding pub_run_def
  by (induction evs arbitrary: s) (simp_all add: self_pub_step)

lemma self_on_message:
  "self (on_message E c t m s) =
     (self s)\<lparr>numberOfReceivedMessages := numberOfReceivedMessages (self (on_message E c t m s))\<rparr>"
  by (simp add: on_message_def split: sum.splits)

lemma self_mqtt_step:
  "self (mqtt_step E c s ev) =
     (self s)\<lparr>numberOfReceivedMessages := numberOfReceivedMessages (self (mqtt_step E c s ev))\<rparr>"
proof (cases "client_topic s")
  case None
  then show ?thesis by (simp add: mqtt_step_def)
next
  case (Some t)
  then show ?thesis
    using self_on_message [of E c t _ s]
    by (cases ev)
       (simp_all add: mqtt_step_def on_connect_def on_subscribe_def on_timer_def on_close_def
          on_error_def Let_def split: option.splits list.splits)
qed

lemma self_mqtt_run:
  "self (mqtt_run E c s evs) =
     (self s)\<lparr>numberOfReceivedMessages := numberOfReceivedMessages (self (mqtt_run E c s evs))\<rparr>"
proof (induction evs arbitrary: s)
  case Nil
  then show ?case by (simp add: mqtt_run_def)
next
  case (Cons ev evs)
  let ?s = "mqtt_step E c s ev"
  have "self (mqtt_run E c s (ev # evs)) =
      (self ?s)\<lparr>numberOfReceivedMessages := numberOfReceivedMessages (self (mqtt_run E c s (ev # evs)))\<rparr>"
    using Cons.IH [of ?s] by (simp add: mqtt_run_Cons)
  also have "\<dots> = ((self s)\<lparr>numberOfReceivedMessages := numberOfReceivedMessages (self ?s)\<rparr>)
      \<lparr>numberOfReceivedMessages := numberOfReceivedMessages (self (mqtt_run E c s (ev # evs)))\<rparr>"
    using self_mqtt_step [of E c s ev] by simp
  finally show ?case by simp
qed

lemma self_MqttAction_invoke: "self (MqttAction_invoke E a c) = a"
  by (simp add: MqttAction_invoke_def split: sum.splits prod.splits)

lemma ws_state_trans: "ws_state (ws_state a b) d = ws_state a d" "ws_state a a = a"
  by (simp_all add: ws_state_def)

lemma self_invokeAsync:
  "invokeAsync E c s = Inr s' \<Longrightarrow> self s' = ws_state (self s) (self s')"
  by (auto simp add: invokeAsync_def ws_state_def split: sum.splits)

lemma self_ws_on_close: "self (ws_on_close E c code s) = ws_state (self s) (self (ws_on_close E c code s))"
proof (cases "code = 1006 \<and> reconnected (self s) \<le> MAX_RECONNECTIONS")
  case False
  then show ?thesis by (auto simp add: ws_on_close_def Let_def ws_state_def)
next
  case True
  let ?s1 = "s\<lparr>log := log s @ [LogDebug ''reconnecting...''],
                self := (self s)\<lparr>reconnected := reconnected (self s) + 1\<rparr>\<rparr>"
  show ?thesis
  proof (cases "invokeAsync E c ?s1")
    case (Inl e)
    with True show ?thesis by (simp add: ws_on_close_def Let_def ws_state_def)
  next
    case (Inr s2)
    from self_invokeAsync [OF Inr] have "self s2 = ws_state (self s) (self s2)"
      by (simp add: ws_state_def)
    with True Inr show ?thesis by (simp add: ws_on_close_def Let_def)
  qed
qed

lemma self_ws_step: "self (ws_step E c s ev) = ws_state (self s) (self (ws_step E c s ev))"
proof (cases ev)
  case (OpenEvent i)
  then show ?thesis
    by (simp add: ws_step_def ws_on_open_def Let_def ws_state_def split: option.splits)
next
  case (MessageEvent i d)
  then show ?thesis
    by (simp add: ws_step_def ws_on_message_def ws_state_def split: sum.splits)
next
  case (CloseEvent i code)
  then show ?thesis
    using self_ws_on_close [of E c code s] by (simp add: ws_step_def ws_state_trans)
next
  case (SocketError i err)
  then show ?thesis by (simp add: ws_step_def ws_on_error_def ws_state_def)
qed

lemma self_ws_run: "self (ws_run E c s evs) = ws_state (self s) (self (ws_run E c s evs))"
proof (induction evs arbitrary: s)
  case Nil
  then show ?case by (simp add: ws_run_def ws_state_trans)
next
  case (Cons ev evs)
  let ?s = "ws_step E c s ev"
  have r: "ws_run E c s (ev # evs) = ws_run E c ?s evs"
    by (simp add: ws_run_def)
  have "self (ws_run E c s (ev # evs)) = ws_state (self ?s) (self (ws_run E c s (ev # evs)))"
    using Cons.IH [of ?s] by (simp add: r)
  also have "\<dots> = ws_state (ws_state (self s) (self ?s)) (self (ws_run E c s (ev # evs)))"
    using self_ws_step [of E c s ev] by simp
  finally show ?case by (simp add: ws_state_trans)
qed

lemma self_WebSocketAction_invoke:
  "self (WebSocketAction_invoke E a c) = ws_state a (self (WebSocketAction_invoke E a c))"
proof -
  let ?s0 = "\<lparr>self = a, promise = Pending, diagram = [], log = [], uncaught = [],
                sockets = 0, sent = []\<rparr>"
  show ?thesis
  proof (cases "invokeAsync E c ?s0")
    case (Inl e)
    then show ?thesis by (simp add: WebSocketAction_invoke_def Let_def ws_state_def)
  next
    case (Inr s)
    from self_invokeAsync [OF Inr] Inr show ?thesis
      by (simp add: WebSocketAction_invoke_def Let_def)
  qed
qed

lemma numberOfReceivedMessages_mqtt_step:
  "numberOfReceivedMessages (self s) \<le> numberOfReceivedMessages (self (mqtt_step E c s ev))"
  by (cases ev)
     (auto simp add: mqtt_step_def on_connect_def on_subscribe_def on_timer_def on_message_def
        on_close_def on_error_def Let_def split: option.splits list.splits sum.splits)

lemma numberOfReceivedMessages_mqtt_run:
  "numberOfReceivedMessages (self s) \<le> numberOfReceivedMessages (self (mqtt_run E c s evs))"
proof (induction evs arbitrary: s)
  case Nil
  then show ?case by (simp add: mqtt_run_def)
next
  case (Cons ev evs)
  from Cons.IH [of "mqtt_step E c s ev"] numberOfReceivedMessages_mqtt_step [of s E c ev]
  show ?case by (simp add: mqtt_run_Cons)
qed

text \<open>
  C9 (as amended). A REST and an MQTT publish invocation leave the Action object
  exactly as it was. MQTT subscribe and WebSocket actions keep their execution
  state in the Action object itself. An MQTT subscribe invocation starts from the
  object as it is, without resetting \<open>numberOfReceivedMessages\<close>; each relevant
  message increments that counter by one, the counter never decreases, and nothing
  else of the object changes. A WebSocket invocation starts from the \<open>reconnected\<close>
  and \<open>receivedMessages\<close> the object carries; creating a socket sets \<open>wsInstance\<close>,
  each relevant message is added to \<open>receivedMessages\<close>, each reconnect increments
  \<open>reconnected\<close>, and nothing else of the object changes. This state is carried
  over when the same Action object is invoked again: the next invocation starts
  with the counter, the reconnect count and the received messages that the earlier
  one has left.
\<close>

theorem execution_state_in_action:
  "self (RestAction_invoke E r c) = r \<and>
   self (pub_run E (MqttPublishAction_invoke E p) pevs) = p \<and>
   self (MqttAction_invoke E m c) = m \<and>
   (client_topic s \<noteq> None \<and> decode_message E (self s) pm = Inr msgObj \<and>
    isMessageRelevant E (MqttAction.messageFilter (self s)) c msgObj = Inr True \<longrightarrow>
      numberOfReceivedMessages (self (mqtt_step E c s (Message pm))) =
        numberOfReceivedMessages (self s) + 1) \<and>
   numberOfReceivedMessages m \<le>
     numberOfReceivedMessages (self (mqtt_run E c (MqttAction_invoke E m c) mevs)) \<and>
   self (mqtt_run E c (MqttAction_invoke E m c) mevs) =
     m\<lparr>numberOfReceivedMessages :=
         numberOfReceivedMessages (self (mqtt_run E c (MqttAction_invoke E m c) mevs))\<rparr> \<and>
   numberOfReceivedMessages
     (self (MqttAction_invoke E (self (mqtt_run E c (MqttAction_invoke E m c) mevs)) c')) =
     numberOfReceivedMessages (self (mqtt_run E c (MqttAction_invoke E m c) mevs)) \<and>
   reconnected (self (WebSocketAction_invoke E w c)) = reconnected w \<and>
   receivedMessages (self (WebSocketAction_invoke E w c)) = receivedMessages w \<and>
   (invokeAsync E c ws = Inr ws' \<longrightarrow>
      wsInstance (self ws') = Some (sockets ws) \<and> sockets ws' = sockets ws + 1) \<and>
   (i < sockets ws \<and> JSON_parse E d = Inr parsedMessage \<and>
    isMessageRelevant E (WebSocketAction.messageFilter (self ws)) c parsedMessage = Inr True \<longrightarrow>
      receivedMessages (self (ws_step E c ws (MessageEvent i d))) =
        Set_add d (receivedMessages (self ws))) \<and>
   (i < sockets ws \<and> reconnected (self ws) < 3 \<longrightarrow>
      reconnected (self (ws_step E c ws (CloseEvent i 1006))) = reconnected (self ws) + 1) \<and>
   self (ws_run E c (WebSocketAction_invoke E w c) wevs) =
     w\<lparr>reconnected := reconnected (self (ws_run E c (WebSocketAction_invoke E w c) wevs)),
       receivedMessages := receivedMessages (self (ws_run E c (WebSocketAction_invoke E w c) wevs)),
       wsInstance := wsInstance (self (ws_run E c (WebSocketAction_invoke E w c) wevs))\<rparr> \<and>
   reconnected
     (self (WebSocketAction_invoke E (self (ws_run E c (WebSocketAction_invoke E w c) wevs)) c')) =
     reconnected (self (ws_run E c (WebSocketAction_invoke E w c) wevs)) \<and>
   receivedMessages
     (self (WebSocketAction_invoke E (self (ws_run E c (WebSocketAction_invoke E w c) wevs)) c')) =
     receivedMessages (self (ws_run E c (WebSocketAction_invoke E w c) wevs))"
proof -
  have 1: "self (RestAction_invoke E r c) = r"
    by (rule RestAction_invoke_self)
  have 2: "self (pub_run E (MqttPublishAction_invoke E p) pevs) = p"
    by (simp add: self_pub_run MqttPublishAction_invoke_def split: sum.splits)
  have 3: "self (MqttAction_invoke E m c) = m" for m c
    by (rule self_MqttAction_invoke)
  have 4: "numberOfReceivedMessages (self (mqtt_step E c s (Message pm))) =
        numberOfReceivedMessages (self s) + 1"
    if "client_topic s \<noteq> None" "decode_message E (self s) pm = Inr msgObj"
      "isMessageRelevant E (MqttAction.messageFilter (self s)) c msgObj = Inr True"
    using that by (auto simp add: mqtt_step_def on_message_def)
  have 5: "numberOfReceivedMessages m \<le>
     numberOfReceivedMessages (self (mqtt_run E c (MqttAction_invoke E m c) mevs))"
    using numberOfReceivedMessages_mqtt_run [of "MqttAction_invoke E m c" E c mevs]
    by (simp add: 3)
  have 6: "self (mqtt_run E c (MqttAction_invoke E m c) mevs) =
     m\<lparr>numberOfReceivedMessages :=
         numberOfReceivedMessages (self (mqtt_run E c (MqttAction_invoke E m c) mevs))\<rparr>"
    using self_mqtt_run [of E c "MqttAction_invoke E m c" mevs]
    by (simp add: 3)
  have 7: "numberOfReceivedMessages
     (self (MqttAction_invoke E (self (mqtt_run E c (MqttAction_invoke E m c) mevs)) c')) =
     numberOfReceivedMessages (self (mqtt_run E c (MqttAction_invoke E m c) mevs))"
    by (simp add: 3)
  have 8: "reconnected (self (WebSocketAction_invoke E w c)) = reconnected w"
    "receivedMessages (self (WebSocketAction_invoke E w c)) = receivedMessages w" for w c
    by (rule WebSocketAction_invoke_fields)+
  have 9: "wsInstance (self ws') = Some (sockets ws) \<and> sockets ws' = sockets ws + 1"
    if "invokeAsync E c ws = Inr ws'"
    using that by (auto simp add: invokeAsync_def split: sum.splits)
  have 10: "receivedMessages (self (ws_step E c ws (MessageEvent i d))) =
        Set_add d (receivedMessages (self ws))"
    if "i < sockets ws" "JSON_parse E d = Inr parsedMessage"
      "isMessageRelevant E (WebSocketAction.messageFilter (self ws)) c parsedMessage = Inr True"
    using that by (simp add: ws_step_def ws_on_message_def)
  have 11: "reconnected (self (ws_step E c ws (CloseEvent i 1006))) = reconnected (self ws) + 1"
    if "i < sockets ws" "reconnected (self ws) < 3"
    using that
    by (simp add: ws_step_def ws_on_close_def invokeAsync_def MAX_RECONNECTIONS_def Let_def
        split: sum.splits)
  let ?i = "WebSocketAction_invoke E w c"
  have "self (ws_run E c ?i wevs) = ws_state (self ?i) (self (ws_run E c ?i wevs))"
    by (rule self_ws_run)
  also have "\<dots> = ws_state (ws_state w (self ?i)) (self (ws_run E c ?i wevs))"
    using self_WebSocketAction_invoke [of E w c] by simp
  finally have "self (ws_run E c ?i wevs) = ws_state w (self (ws_run E c ?i wevs))"
    by (simp add: ws_state_trans)
  then have 12: "self (ws_run E c ?i wevs) =
     w\<lparr>reconnected := reconnected (self (ws_run E c ?i wevs)),
       receivedMessages := receivedMessages (self (ws_run E c ?i wevs)),
       wsInstance := wsInstance (self (ws_run E c ?i wevs))\<rparr>"
    by (simp add: ws_state_def)
  show ?thesis
    using 1 2 3 [of m c] 4 5 6 7 8 [of w c] 8 [of "self (ws_run E c ?i wevs)" c'] 9 10 11 12
    by blast
qed

text \<open>
  The amended C9 at concrete invocations: a relevant MQTT message makes the counter
  1, and a second invocation of that Action object starts at 1; a relevant
  WebSocket message is added to the received messages, and a reconnect makes the
  reconnect count 1.
\<close>

theorem execution_state_in_action_witness:
  "numberOfReceivedMessages
     (self (mqtt_step demo_env Map.empty
        (mqtt_run demo_env Map.empty (MqttAction_invoke demo_env demo_mqtt Map.empty) [Connect])
        (Message (Text ''{}'')))) = 1 \<and>
   numberOfReceivedMessages
     (self (MqttAction_invoke demo_env
        (self (mqtt_run demo_env Map.empty (MqttAction_invoke demo_env demo_mqtt Map.empty)
           [Connect, Message (Text ''{}'')])) Map.empty)) = 1 \<and>
   wsInstance (self (WebSocketAction_invoke demo_env demo_ws Map.empty)) = Some 0 \<and>
   receivedMessages
     (self (ws_step demo_env Map.empty (WebSocketAction_invoke demo_env demo_ws Map.empty)
        (MessageEvent 0 ''{}''))) = [''{}''] \<and>
   reconnected
     (self (ws_step demo_env Map.empty (WebSocketAction_invoke demo_env demo_ws Map.empty)
        (CloseEvent 0 1006))) = 1"
proof -
  let ?mi = "MqttAction_invoke demo_env demo_mqtt Map.empty"
  let ?ms = "mqtt_run demo_env Map.empty ?mi [Connect]"
  let ?w0 = "\<lparr>self = demo_ws, promise = Pending, diagram = [], log = [], uncaught = [],
               sockets = 0, sent = []\<rparr>"
  let ?wi = "WebSocketAction_invoke demo_env demo_ws Map.empty"
  have h: "client_topic ?ms \<noteq> None" "decode_message demo_env (self ?ms) (Text ''{}'') = Inr (JObj [])"
    "isMessageRelevant demo_env (MqttAction.messageFilter (self ?ms)) Map.empty (JObj []) = Inr True"
    "numberOfReceivedMessages (self ?ms) = 0"
    "numberOfReceivedMessages (self (mqtt_run demo_env Map.empty ?mi [Connect, Message (Text ''{}'')])) = 1"
    by code_simp+
  have k: "invokeAsync demo_env Map.empty ?w0 = Inr ?wi" "sockets ?w0 = 0"
    "0 < sockets ?wi" "JSON_parse demo_env ''{}'' = Inr (JObj [])"
    "isMessageRelevant demo_env (WebSocketAction.messageFilter (self ?wi)) Map.empty (JObj []) = Inr True"
    "Set_add ''{}'' (receivedMessages (self ?wi)) = [''{}'']"
    "reconnected (self ?wi) < 3" "reconnected (self ?wi) = 0"
    by code_simp+
  note a = execution_state_in_action [where E = demo_env and c = Map.empty and s = ?ms
      and pm = "Text ''{}''" and msgObj = "JObj []" and m = demo_mqtt
      and mevs = "[Connect, Message (Text ''{}'')]" and c' = Map.empty]
  note b = execution_state_in_action [where E = demo_env and c = Map.empty and ws = ?w0 and ws' = ?wi]
  note d = execution_state_in_action [where E = demo_env and c = Map.empty and ws = ?wi and i = 0
      and d = "''{}''" and parsedMessage = "JObj []"]
  from a b d h k show ?thesis by simp
qed

text \<open>
  C9, as stated, fails: one relevant message changes the MQTT subscribe Action
  object the invocation runs on.
\<close>

theorem mqtt_invocation_mutates_action:
  "self (mqtt_run demo_env Map.empty (MqttAction_invoke demo_env demo_mqtt Map.empty)
          [Connect, Message (Text ''{}'')]) \<noteq> demo_mqtt"
proof
  assume "self (mqtt_run demo_env Map.empty (MqttAction_invoke demo_env demo_mqtt Map.empty)
          [Connect, Message (Text ''{}'')]) = demo_mqtt"
  then have "numberOfReceivedMessages (self (mqtt_run demo_env Map.empty
      (MqttAction_invoke demo_env demo_mqtt Map.empty) [Connect, Message (Text ''{}'')])) =
      numberOfReceivedMessages demo_mqtt" by simp
  moreover have "numberOfReceivedMessages (self (mqtt_run demo_env Map.empty
      (MqttAction_invoke demo_env demo_mqtt Map.empty) [Connect, Message (Text ''{}'')])) = 1"
    by code_simp
  moreover have "numberOfReceivedMessages demo_mqtt = 0"
    by code_simp
  ultimately show False by simp
qed

section \<open>Properties of the REST template merge\<close>

text \<open>Listing an object in property order does not change what its keys hold.\<close>

lemma map_of_filter_key: "map_of (filter (\<lambda>p. fst p = k) m) k = map_of m k"
  by (induction m) auto

lemma map_of_filter_other: "\<not> P k \<Longrightarrow> map_of (filter (\<lambda>p. P (fst p)) m) k = None"
  by (induction m) auto

lemma map_of_filter_same: "P k \<Longrightarrow> map_of (filter (\<lambda>p. P (fst p)) m) k = map_of m k"
  by (induction m) auto

lemma filter_key_via:
  "filter (\<lambda>p. fst p = k) (filter (\<lambda>p. f (fst p) = f k) xs) = filter (\<lambda>p. fst p = k) xs"
  by (induction xs) auto

lemma map_of_sort_key: "map_of (sort_key (\<lambda>p. f (fst p)) m) k = map_of m k"
proof -
  let ?g = "\<lambda>p. f (fst p)"
  have "filter (\<lambda>p. fst p = k) (sort_key ?g m) =
        filter (\<lambda>p. fst p = k) (filter (\<lambda>p. ?g p = f k) (sort_key ?g m))"
    by (simp only: filter_key_via)
  also have "\<dots> = filter (\<lambda>p. fst p = k) (filter (\<lambda>p. ?g p = f k) m)"
    by (simp only: sort_key_stable)
  also have "\<dots> = filter (\<lambda>p. fst p = k) m"
    by (simp only: filter_key_via)
  finally have "map_of (filter (\<lambda>p. fst p = k) (sort_key ?g m)) k =
      map_of (filter (\<lambda>p. fst p = k) m) k" by (simp only:)
  then show ?thesis by (simp only: map_of_filter_key)
qed

lemma map_of_property_order: "map_of (property_order m) = map_of m"
proof
  fix k
  show "map_of (property_order m) k = map_of m k"
  proof (cases "is_array_index k")
    case True
    then have "map_of (filter (\<lambda>p. \<not> is_array_index (fst p)) m) k = None"
      by (intro map_of_filter_other) simp
    moreover from True have "map_of (filter (\<lambda>p. is_array_index (fst p)) m) k = map_of m k"
      by (rule map_of_filter_same)
    ultimately show ?thesis
      by (simp add: property_order_def map_add_def map_of_sort_key split: option.splits)
  next
    case False
    then have "map_of (filter (\<lambda>p. \<not> is_array_index (fst p)) m) k = map_of m k"
      by (intro map_of_filter_same) simp
    moreover from False have "map_of (filter (\<lambda>p. is_array_index (fst p)) m) k = None"
      by (rule map_of_filter_other)
    ultimately show ?thesis
      by (simp add: property_order_def map_add_def map_of_sort_key split: option.splits)
  qed
qed

text \<open>A spread is the right-biased union of the two objects.\<close>

lemma map_of_spread:
  assumes "distinct (map fst b)"
  shows "map_of (spread a b) = map_of a ++ map_of b"
proof -
  have "map_of (fold (\<lambda>(k, v). AList.update k v) b a) = map_of a ++ map_of b"
    if "distinct (map fst b)" for a
    using that
  proof (induction b arbitrary: a)
    case Nil
    then show ?case by simp
  next
    case (Cons p b)
    obtain k v where p: "p = (k, v)" by (cases p)
    from Cons.prems p have k: "map_of b k = None" and d: "distinct (map fst b)"
      by (simp_all add: map_of_eq_None_iff)
    have "fold (\<lambda>(k, v). AList.update k v) (p # b) a =
          fold (\<lambda>(k, v). AList.update k v) b (AList.update k v a)"
      unfolding p by simp
    then have "map_of (fold (\<lambda>(k, v). AList.update k v) (p # b) a) =
          map_of (AList.update k v a) ++ map_of b"
      using Cons.IH [OF d, of "AList.update k v a"] by (simp only:)
    then have "map_of (fold (\<lambda>(k, v). AList.update k v) (p # b) a) =
          (map_of a)(k \<mapsto> v) ++ map_of b"
      by (simp only: update_conv')
    also have "\<dots> = map_of a ++ map_of (p # b)"
      unfolding p using k
      by (auto simp add: map_add_def fun_eq_iff split: option.splits)
    finally show ?case .
  qed
  with assms show ?thesis by (simp add: spread_def map_of_property_order)
qed

text \<open>
  C8 at a failing input: the template has no form, the overriding definition has
  one; the merged action has none.
\<close>

theorem fromTemplate_drops_form:
  "form demo_rest = None \<and>
   RestActionDefinition.form demo_definition = Some [(''grant_type'', ''password'')] \<and>
   form (fromTemplate demo_definition demo_rest) = None"
  by code_simp

text \<open>What the merge does field by field: query parameters and variables are always
  spread; headers and form are spread when the template has them; without template
  headers the definition's headers are taken (through the constructor's default),
  without a template form the result has no form.\<close>

lemma fromTemplate_merge:
  "queryParameters (fromTemplate d t) =
     spread (queryParameters t) (entries_of (RestActionDefinition.queryParameters d))"
  "variables (fromTemplate d t) =
     Some (spread (entries_of (variables t)) (entries_of (RestActionDefinition.variables d)))"
  "restHead t = Some h \<Longrightarrow>
     restHead (fromTemplate d t) = Some (spread h (entries_of (RestActionDefinition.headers d)))"
  "restHead t = None \<Longrightarrow> RestActionDefinition.restHead d = None \<Longrightarrow>
     restHead (fromTemplate d t) = RestActionDefinition.headers d"
  "form t = Some f \<Longrightarrow>
     form (fromTemplate d t) = Some (spread f (entries_of (RestActionDefinition.form d)))"
  "form t = None \<Longrightarrow> form (fromTemplate d t) = None"
  by (simp_all add: fromTemplate_def RestAction_new_def)

lemma fromTemplate_keeps_other_headers:
  assumes "restHead t = Some h" and "RestActionDefinition.headers d = Some [(''Authorization'', v)]"
  shows "restHead (fromTemplate d t) = Some (spread h [(''Authorization'', v)])"
    and "k \<noteq> ''Authorization'' \<Longrightarrow>
           map_of (spread h [(''Authorization'', v)]) k = map_of h k"
    and "map_of (spread h [(''Authorization'', v)]) ''Authorization'' = Some v"
  using assms by (simp_all add: fromTemplate_merge(3) entries_of_def map_of_spread)

text \<open>A REST invocation calls \<open>request\<close> at most once, asking for at most 3 attempts
  1000 ms apart; whether and when the HTTP client retries is decided inside
  \<open>request\<close>.\<close>

lemma rest_request_options:
  "requests (RestAction_invoke E a c) = [] \<or>
   (\<exists>opts. requests (RestAction_invoke E a c) = [opts] \<and> maxAttempts opts = 3 \<and>
      retryDelay opts = 1000)"
proof (cases "build_request E (rest_init a c)")
  case (Inl e)
  then show ?thesis by (simp add: RestAction_invoke_def rest_init_def)
next
  case (Inr os)
  obtain ro s1 where os: "os = (ro, s1)" by (cases os)
  note b = Inr [unfolded os]
  from build_request_Inr [OF b] have "maxAttempts ro = 3" "retryDelay ro = 1000" by auto
  moreover have "requests (RestAction_invoke E a c) = [ro]"
    using b build_request_frame(3) [OF b]
    by (simp add: RestAction_invoke_def on_request_done_self rest_init_def)
  ultimately show ?thesis by simp
qed

section \<open>Further properties\<close>

text \<open>
  The guard of the close handler is \<open>reconnected <= MAX_RECONNECTIONS\<close>: a close
  with code 1006 after three reconnections reconnects a fourth time, without
  settling the promise.
\<close>

theorem ws_fourth_reconnect:
  "i < sockets s \<and> reconnected (self s) = 3 \<and>
   injectEvalAndVarsToString E (WebSocketAction.url (self s)) c = Inr u \<and>
   injectEvalAndVarsToMap E (WebSocketAction.headers (self s)) c = Inr q \<and>
   WebSocket_new E (u @ ''?'' @ stringify E q) = Inr socket \<longrightarrow>
     reconnected (self (ws_step E c s (CloseEvent i 1006))) = 4 \<and>
     sockets (ws_step E c s (CloseEvent i 1006)) = sockets s + 1 \<and>
     promise (ws_step E c s (CloseEvent i 1006)) = promise s"
proof
  assume a: "i < sockets s \<and> reconnected (self s) = 3 \<and>
   injectEvalAndVarsToString E (WebSocketAction.url (self s)) c = Inr u \<and>
   injectEvalAndVarsToMap E (WebSocketAction.headers (self s)) c = Inr q \<and>
   WebSocket_new E (u @ ''?'' @ stringify E q) = Inr socket"
  then have "reconnected (self s) \<le> MAX_RECONNECTIONS"
    by (simp add: MAX_RECONNECTIONS_def)
  with a ws_close_1006 [of i s E c u q socket] show
    "reconnected (self (ws_step E c s (CloseEvent i 1006))) = 4 \<and>
     sockets (ws_step E c s (CloseEvent i 1006)) = sockets s + 1 \<and>
     promise (ws_step E c s (CloseEvent i 1006)) = promise s"
    by simp
qed

theorem ws_fourth_reconnect_witness:
  "reconnected (self (ws_step demo_env Map.empty
      (WebSocketAction_invoke demo_env (demo_ws\<lparr>reconnected := 3\<rparr>) Map.empty)
      (CloseEvent 0 1006))) = 4 \<and>
   sockets (ws_step demo_env Map.empty
      (WebSocketAction_invoke demo_env (demo_ws\<lparr>reconnected := 3\<rparr>) Map.empty)
      (CloseEvent 0 1006)) = 2"
proof -
  let ?s = "WebSocketAction_invoke demo_env (demo_ws\<lparr>reconnected := 3\<rparr>) Map.empty"
  have h: "0 < sockets ?s" "reconnected (self ?s) = 3" "sockets ?s = 1"
    "injectEvalAndVarsToString demo_env (WebSocketAction.url (self ?s)) Map.empty = Inr ''ws://svc''"
    "injectEvalAndVarsToMap demo_env (WebSocketAction.headers (self ?s)) Map.empty = Inr []"
    "WebSocket_new demo_env (''ws://svc'' @ ''?'' @ stringify demo_env []) = Inr ()"
    by code_simp+
  note t = ws_fourth_reconnect [where E = demo_env and c = Map.empty and s = ?s and i = 0
      and u = "''ws://svc''" and q = "[]" and socket = "()"]
  from t h show ?thesis by simp
qed

text \<open>
  \<open>fromTemplate\<close> spreads the definition's query parameters and variables over
  the template's; it spreads headers and form over the template's when the
  template has them. A spread with distinct keys is the union of the two objects
  in which the second wins.
\<close>

theorem fromTemplate_spreads:
  "queryParameters (fromTemplate d t) =
     spread (queryParameters t) (entries_of (RestActionDefinition.queryParameters d)) \<and>
   variables (fromTemplate d t) =
     Some (spread (entries_of (variables t)) (entries_of (RestActionDefinition.variables d))) \<and>
   (restHead t = Some h \<longrightarrow>
     restHead (fromTemplate d t) = Some (spread h (entries_of (RestActionDefinition.headers d)))) \<and>
   (form t = Some f \<longrightarrow>
     form (fromTemplate d t) = Some (spread f (entries_of (RestActionDefinition.form d)))) \<and>
   (distinct (map fst b) \<longrightarrow> map_of (spread a b) = map_of a ++ map_of b)"
  by (simp add: fromTemplate_def RestAction_new_def map_of_spread)

theorem fromTemplate_spreads_witness:
  "restHead (fromTemplate demo_definition demo_rest) =
     Some [(''Accept'', ''*/*''), (''Authorization'', ''Basic abc'')] \<and>
   form (fromTemplate demo_definition (demo_rest\<lparr>form := Some [(''scope'', ''all'')]\<rparr>)) =
     Some [(''scope'', ''all''), (''grant_type'', ''password'')] \<and>
   map_of (spread [(''Accept'', ''*/*'')] [(''Authorization'', ''Basic abc'')]) ''Accept'' = Some ''*/*''"
proof -
  let ?t = "demo_rest\<lparr>form := Some [(''scope'', ''all'')]\<rparr>"
  have h: "restHead demo_rest = Some [(''Accept'', ''*/*'')]"
    "form ?t = Some [(''scope'', ''all'')]"
    "distinct (map fst [(''Authorization'', ''Basic abc'')])"
    "spread [(''Accept'', ''*/*'')] (entries_of (RestActionDefinition.headers demo_definition)) =
       [(''Accept'', ''*/*''), (''Authorization'', ''Basic abc'')]"
    "spread [(''scope'', ''all'')] (entries_of (RestActionDefinition.form demo_definition)) =
       [(''scope'', ''all''), (''grant_type'', ''password'')]"
    by code_simp+
  note t1 = fromTemplate_spreads [where d = demo_definition and t = demo_rest
      and h = "[(''Accept'', ''*/*'')]" and a = "[(''Accept'', ''*/*'')]"
      and b = "[(''Authorization'', ''Basic abc'')]"]
  note t2 = fromTemplate_spreads [where d = demo_definition and t = ?t
      and f = "[(''scope'', ''all'')]"]
  from t1 h(1) have "restHead (fromTemplate demo_definition demo_rest) =
      Some (spread [(''Accept'', ''*/*'')] (entries_of (RestActionDefinition.headers demo_definition)))"
    by blast
  with h(4) have A: "restHead (fromTemplate demo_definition demo_rest) =
     Some [(''Accept'', ''*/*''), (''Authorization'', ''Basic abc'')]" by simp
  from t2 h(2) have "form (fromTemplate demo_definition ?t) =
      Some (spread [(''scope'', ''all'')] (entries_of (RestActionDefinition.form demo_definition)))"
    by blast
  with h(5) have B: "form (fromTemplate demo_definition ?t) =
     Some [(''scope'', ''all''), (''grant_type'', ''password'')]" by simp
  from t1 h(3) have "map_of (spread [(''Accept'', ''*/*'')] [(''Authorization'', ''Basic abc'')]) =
      map_of [(''Accept'', ''*/*'')] ++ map_of [(''Authorization'', ''Basic abc'')]"
    by blast
  then have C: "map_of (spread [(''Accept'', ''*/*'')] [(''Authorization'', ''Basic abc'')]) ''Accept'' =
      Some ''*/*''" by (simp add: map_add_def)
  from A B C show ?thesis by blast
qed

text \<open>
  A REST invocation calls \<open>request\<close> at most once, and with \<open>maxAttempts\<close> 3 and
  \<open>retryDelay\<close> 1000.
\<close>

theorem rest_single_request:
  "requests (RestAction_invoke E a c) = [] \<or>
   (\<exists>opts. requests (RestAction_invoke E a c) = [opts] \<and> maxAttempts opts = 3 \<and>
      retryDelay opts = 1000)"
  by (rule rest_request_options)

end
